theory Spec2Isabelle
  imports Main "HOL-Library.Word" "HOL-Library.Multiset"
begin

section \<open>ssync: a shallow embedding of main.go\<close>

text \<open>
  Go strings are byte sequences and are modelled as \<open>string\<close> (a list of 8-bit
  characters). An \<open>error\<close> value is represented by its message, since the
  program only ever prints errors with \<open>%v\<close>.
\<close>

type_synonym error = string

subsection \<open>The parts of package strings that main.go uses\<close>

text \<open>
  \<open>TrimSpace\<close>, \<open>ToUpper\<close> and \<open>ToLower\<close> are given for ASCII text: the white
  space characters are tab, line feed, vertical tab, form feed, carriage return and
  space, and only the letters \<open>a\<close> to \<open>z\<close> change case.
\<close>

definition HasPrefix :: "string \<Rightarrow> string \<Rightarrow> bool" where
  "HasPrefix s p = (take (length p) s = p)"

definition TrimPrefix :: "string \<Rightarrow> string \<Rightarrow> string" where
  "TrimPrefix s p = (if HasPrefix s p then drop (length p) s else s)"

fun Contains :: "string \<Rightarrow> string \<Rightarrow> bool" where
  "Contains [] sub = (sub = [])"
| "Contains (c # cs) sub = (HasPrefix (c # cs) sub \<or> Contains cs sub)"

definition isSpace :: "char \<Rightarrow> bool" where
  "isSpace c = (c \<in> set [CHR 0x09, CHR 0x0A, CHR 0x0B, CHR 0x0C, CHR 0x0D, CHR 0x20])"

definition TrimSpace :: "string \<Rightarrow> string" where
  "TrimSpace s = rev (dropWhile isSpace (rev (dropWhile isSpace s)))"

definition upperOf :: "char \<Rightarrow> char" where
  "upperOf c = (case map_of (zip ''abcdefghijklmnopqrstuvwxyz'' ''ABCDEFGHIJKLMNOPQRSTUVWXYZ'') c of
                  None \<Rightarrow> c | Some d \<Rightarrow> d)"

definition lowerOf :: "char \<Rightarrow> char" where
  "lowerOf c = (case map_of (zip ''ABCDEFGHIJKLMNOPQRSTUVWXYZ'' ''abcdefghijklmnopqrstuvwxyz'') c of
                  None \<Rightarrow> c | Some d \<Rightarrow> d)"

definition ToUpper :: "string \<Rightarrow> string" where
  "ToUpper s = map upperOf s"

definition ToLower :: "string \<Rightarrow> string" where
  "ToLower s = map lowerOf s"

text \<open>\<open>strings.Split(s, ",")\<close>: the fields between the separators; never empty.\<close>

fun splitOn :: "char \<Rightarrow> string \<Rightarrow> string list" where
  "splitOn sep [] = [[]]"
| "splitOn sep (c # cs) =
     (if c = sep then [] # splitOn sep cs
      else (case splitOn sep cs of
              [] \<Rightarrow> [[c]]
            | w # ws \<Rightarrow> (c # w) # ws))"

subsection \<open>The parts of package path/filepath that main.go uses (Unix)\<close>

text \<open>
  The separator is \<open>/\<close> and there are no volume names. The functions follow the
  library's loops: \<open>Clean\<close> reads the path from left to right and writes to a
  buffer \<open>out\<close>, remembering in \<open>dotdot\<close> how far a \<open>..\<close> element may
  back up; \<open>Rel\<close> walks both cleaned paths element by element.
\<close>

definition Separator :: char where
  "Separator = CHR ''/''"

definition IsAbs :: "string \<Rightarrow> bool" where
  "IsAbs path = HasPrefix path ''/''"

definition Base :: "string \<Rightarrow> string" where
  "Base path =
     (if path = [] then ''.''
      else let stripped = rev (dropWhile (\<lambda>c. c = Separator) (rev path));
               lastElem = rev (takeWhile (\<lambda>c. c \<noteq> Separator) (rev stripped))
           in if lastElem = [] then [Separator] else lastElem)"

fun backtrack :: "string \<Rightarrow> nat \<Rightarrow> nat \<Rightarrow> nat" where
  "backtrack out dotdot 0 = 0"
| "backtrack out dotdot (Suc w) =
     (if Suc w > dotdot \<and> out ! (Suc w) \<noteq> Separator then backtrack out dotdot w else Suc w)"

function cleanLoop :: "bool \<Rightarrow> string \<Rightarrow> string \<Rightarrow> nat \<Rightarrow> string" where
  "cleanLoop rooted [] out dotdot = out"
| "cleanLoop rooted (c # cs) out dotdot =
     (if c = Separator then cleanLoop rooted cs out dotdot
      else if c = CHR ''.'' \<and> (cs = [] \<or> hd cs = Separator) then cleanLoop rooted cs out dotdot
      else if c = CHR ''.'' \<and> hd cs = CHR ''.'' \<and> (tl cs = [] \<or> hd (tl cs) = Separator) then
        (if length out > dotdot then
           cleanLoop rooted (tl cs) (take (backtrack out dotdot (length out - 1)) out) dotdot
         else if \<not> rooted then
           (let out' = (if out \<noteq> [] then out @ [Separator] else out) @ ''..''
            in cleanLoop rooted (tl cs) out' (length out'))
         else cleanLoop rooted (tl cs) out dotdot)
      else
        (let out' = (if rooted \<and> length out \<noteq> 1 \<or> \<not> rooted \<and> length out \<noteq> 0
                     then out @ [Separator] else out)
         in cleanLoop rooted (dropWhile (\<lambda>x. x \<noteq> Separator) cs)
              (out' @ c # takeWhile (\<lambda>x. x \<noteq> Separator) cs) dotdot))"
  by pat_completeness auto
termination
  by (relation "measure (\<lambda>(rooted, path, out, dotdot). length path)")
     (auto simp: less_Suc_eq_le length_dropWhile_le intro: le_trans [OF diff_le_self])

definition Clean :: "string \<Rightarrow> string" where
  "Clean path =
     (if path = [] then ''.''
      else let rooted = (hd path = Separator);
               out = (if rooted then cleanLoop True (tl path) [Separator] 1
                      else cleanLoop False path [] 0)
           in if out = [] then ''.'' else out)"

text \<open>
  The element loop of \<open>Rel\<close>. The two arguments are \<open>base[b0:]\<close> and
  \<open>targ[t0:]\<close>; the result gives them as they are when the loop ends, together
  with the element \<open>base[b0:bi]\<close> the library then compares with \<open>..\<close>.
\<close>

function relLoop :: "string \<Rightarrow> string \<Rightarrow> string \<times> string \<times> string" where
  "relLoop base targ =
     (if base = [] \<or> targ = [] then ([], base, targ)
      else let be = takeWhile (\<lambda>c. c \<noteq> Separator) base;
               te = takeWhile (\<lambda>c. c \<noteq> Separator) targ
           in if te \<noteq> be then (be, base, targ)
              else relLoop (drop (Suc (length be)) base) (drop (Suc (length te)) targ))"
  by pat_completeness auto
termination
  by (relation "measure (\<lambda>(base, targ). length base)") auto

definition Rel :: "string \<Rightarrow> string \<Rightarrow> error + string" where
  "Rel basepath targpath =
     (let base0 = Clean basepath;
          targ = Clean targpath
      in if targ = base0 then Inr ''.''
         else let base = (if base0 = ''.'' then [] else base0);
                  baseSlashed = (base \<noteq> [] \<and> hd base = Separator);
                  targSlashed = (targ \<noteq> [] \<and> hd targ = Separator)
              in if baseSlashed \<noteq> targSlashed
                 then Inl (''Rel: can't make '' @ targpath @ '' relative to '' @ basepath)
                 else (case relLoop base targ of
                         (elem, baseRest, targRest) \<Rightarrow>
                           if elem = ''..''
                           then Inl (''Rel: can't make '' @ targpath @ '' relative to '' @ basepath)
                           else if baseRest \<noteq> [] then
                             Inr (''..'' @ concat (replicate (count_list baseRest Separator) ''/..'')
                                    @ (if targRest \<noteq> [] then Separator # targRest else []))
                           else Inr targRest))"

text \<open>\<open>Join\<close> of two elements, and \<open>Abs\<close>, which needs the working directory.\<close>

definition Join :: "string \<Rightarrow> string \<Rightarrow> string" where
  "Join a b =
     (if a = [] \<and> b = [] then []
      else if a = [] then Clean b
      else if b = [] then Clean a
      else Clean (a @ [Separator] @ b))"

definition Abs :: "(error + string) \<Rightarrow> string \<Rightarrow> error + string" where
  "Abs getwd path =
     (if IsAbs path then Inr (Clean path)
      else (case getwd of
              Inl err \<Rightarrow> Inl err
            | Inr wd \<Rightarrow> Inr (Join wd path)))"

subsection \<open>filepath.Match\<close>

text \<open>
  Patterns and names are read one byte per character (the library decodes UTF-8
  runes; the two agree on ASCII text). \<open>matchChunk\<close> answers \<open>Inr (Some rest)\<close>
  when the chunk matches a prefix of the name, \<open>Inr None\<close> when it does not, and
  \<open>Inl ErrBadPattern\<close> when the chunk is malformed.
\<close>

definition ErrBadPattern :: error where
  "ErrBadPattern = ''syntax error in pattern''"

definition backslash :: char where
  "backslash = CHR 0x5C"

fun scan :: "bool \<Rightarrow> string \<Rightarrow> string \<times> string" where
  "scan inrange [] = ([], [])"
| "scan inrange [c] =
     (if c = CHR ''*'' \<and> \<not> inrange then ([], [c]) else ([c], []))"
| "scan inrange (c # d # ds) =
     (if c = backslash then (case scan inrange ds of (chunk, rest) \<Rightarrow> (c # d # chunk, rest))
      else if c = CHR ''['' then (case scan True (d # ds) of (chunk, rest) \<Rightarrow> (c # chunk, rest))
      else if c = CHR '']'' then (case scan False (d # ds) of (chunk, rest) \<Rightarrow> (c # chunk, rest))
      else if c = CHR ''*'' \<and> \<not> inrange then ([], c # d # ds)
      else (case scan inrange (d # ds) of (chunk, rest) \<Rightarrow> (c # chunk, rest)))"

definition scanChunk :: "string \<Rightarrow> bool \<times> string \<times> string" where
  "scanChunk pattern =
     (let star = (pattern \<noteq> [] \<and> hd pattern = CHR ''*'');
          pattern' = dropWhile (\<lambda>c. c = CHR ''*'') pattern
      in case scan False pattern' of (chunk, rest) \<Rightarrow> (star, chunk, rest))"

definition getEsc :: "string \<Rightarrow> error + (char \<times> string)" where
  "getEsc chunk =
     (if chunk = [] \<or> hd chunk = CHR ''-'' \<or> hd chunk = CHR '']'' then Inl ErrBadPattern
      else let chunk' = (if hd chunk = backslash then tl chunk else chunk)
           in if chunk' = [] then Inl ErrBadPattern
              else if tl chunk' = [] then Inl ErrBadPattern
              else Inr (hd chunk', tl chunk'))"

lemma getEsc_shorter: "getEsc chunk = Inr (r, rest) \<Longrightarrow> length rest < length chunk"
  by (cases chunk; cases "tl chunk") (auto simp: getEsc_def Let_def split: if_splits)

function ranges :: "string \<Rightarrow> char \<Rightarrow> bool \<Rightarrow> nat \<Rightarrow> error + (bool \<times> string)" where
  "ranges chunk r match nrange =
     (if chunk \<noteq> [] \<and> hd chunk = CHR '']'' \<and> nrange > 0 then Inr (match, tl chunk)
      else (case getEsc chunk of
              Inl err \<Rightarrow> Inl err
            | Inr (lo, chunk1) \<Rightarrow>
                if hd chunk1 = CHR ''-'' then
                  (case getEsc (tl chunk1) of
                     Inl err \<Rightarrow> Inl err
                   | Inr (hi, chunk2) \<Rightarrow>
                       ranges chunk2 r
                         (match \<or> ((of_char lo :: nat) \<le> of_char r \<and> (of_char r :: nat) \<le> of_char hi))
                         (nrange + 1))
                else ranges chunk1 r (match \<or> lo = r) (nrange + 1)))"
  by pat_completeness auto
termination
proof (relation "measure (\<lambda>(chunk, r, match, nrange). length chunk)", goal_cases)
  case 1
  show ?case by simp
next
  case (2 chunk r match nrange x2 lo chunk1 x2a hi chunk2)
  have "length chunk1 < length chunk"
    using 2 getEsc_shorter [of chunk lo chunk1] by simp
  moreover have "length chunk2 < length (tl chunk1)"
    using 2 getEsc_shorter [of "tl chunk1" hi chunk2] by simp
  ultimately show ?case by simp
next
  case (3 chunk r match nrange x2 lo chunk1)
  then show ?case using getEsc_shorter [of chunk lo chunk1] by simp
qed

lemma ranges_shorter:
  "ranges chunk r match nrange = Inr (m, rest) \<Longrightarrow> length rest \<le> length chunk"
proof (induction chunk r match nrange rule: ranges.induct)
  case (1 chunk r match nrange)
  show ?case
  proof (cases "chunk \<noteq> [] \<and> hd chunk = CHR '']'' \<and> nrange > 0")
    case True
    with "1.prems" show ?thesis by (subst (asm) ranges.simps) auto
  next
    case False
    from "1.prems" False obtain lo chunk1 where g1: "getEsc chunk = Inr (lo, chunk1)"
      by (subst (asm) ranges.simps) (auto split: sum.splits)
    have l1: "length chunk1 < length chunk" using getEsc_shorter [OF g1] .
    show ?thesis
    proof (cases "hd chunk1 = CHR ''-''")
      case dash: True
      from "1.prems" False g1 dash obtain hi chunk2 where
        g2: "getEsc (tl chunk1) = Inr (hi, chunk2)"
        by (subst (asm) ranges.simps) (auto split: sum.splits)
      have l2: "length chunk2 < length (tl chunk1)" using getEsc_shorter [OF g2] .
      from "1.prems" False g1 dash g2 have
        "ranges chunk2 r (match \<or> ((of_char lo :: nat) \<le> of_char r \<and> (of_char r :: nat) \<le> of_char hi))
           (nrange + 1) = Inr (m, rest)"
        by (subst (asm) ranges.simps) simp
      from "1.IH"(1) [OF False g1 refl dash g2 refl this]
      show ?thesis using l1 l2 by simp
    next
      case nodash: False
      from "1.prems" False g1 nodash have
        "ranges chunk1 r (match \<or> lo = r) (nrange + 1) = Inr (m, rest)"
        by (subst (asm) ranges.simps) simp
      from "1.IH"(2) [OF False g1 refl nodash this]
      show ?thesis using l1 by simp
    qed
  qed
qed

function matchChunkLoop :: "string \<Rightarrow> string \<Rightarrow> bool \<Rightarrow> error + string option" where
  "matchChunkLoop [] s failed = (if failed then Inr None else Inr (Some s))"
| "matchChunkLoop (c # chunk) s failed0 =
     (let failed = (failed0 \<or> s = []) in
      if c = CHR ''['' then
        (let r = (if failed then CHR 0x00 else hd s);
             s1 = (if failed then s else tl s);
             negated = (chunk \<noteq> [] \<and> hd chunk = CHR ''^'');
             chunk1 = (if negated then tl chunk else chunk)
         in case ranges chunk1 r False 0 of
              Inl err \<Rightarrow> Inl err
            | Inr (match, chunk2) \<Rightarrow> matchChunkLoop chunk2 s1 (failed \<or> match = negated))
      else if c = CHR ''?'' then
        matchChunkLoop chunk (if failed then s else tl s) (failed \<or> hd s = Separator)
      else if c = backslash then
        (case chunk of
           [] \<Rightarrow> Inl ErrBadPattern
         | d # ds \<Rightarrow> matchChunkLoop ds (if failed then s else tl s) (failed \<or> d \<noteq> hd s))
      else matchChunkLoop chunk (if failed then s else tl s) (failed \<or> c \<noteq> hd s))"
  by pat_completeness auto
termination
proof (relation "measure (\<lambda>(chunk, s, failed). length chunk)", goal_cases)
  case (2 c chunk s failed0 failed r s1 negated chunk1 x2 match chunk2)
  have "length chunk2 \<le> length chunk1"
    using 2 ranges_shorter [of chunk1 r False 0 match chunk2] by simp
  moreover have "length chunk1 \<le> length chunk" using 2 by simp
  ultimately show ?case by simp
qed auto

definition matchChunk :: "string \<Rightarrow> string \<Rightarrow> error + string option" where
  "matchChunk chunk s = matchChunkLoop chunk s False"

text \<open>
  The loop that, after a star, tries the chunk at every later position of the name
  up to the next separator. \<open>Inr (Some t)\<close> is the library's \<open>continue Pattern\<close>
  with the name set to \<open>t\<close>; \<open>Inr None\<close> means the loop ran out.
\<close>

fun starSkip :: "string \<Rightarrow> bool \<Rightarrow> string \<Rightarrow> error + string option" where
  "starSkip chunk lastChunk [] = Inr None"
| "starSkip chunk lastChunk (c # cs) =
     (if c = Separator then Inr None
      else (case matchChunk chunk cs of
              Inr (Some t) \<Rightarrow>
                if lastChunk \<and> t \<noteq> [] then starSkip chunk lastChunk cs else Inr (Some t)
            | Inl err \<Rightarrow> Inl err
            | Inr None \<Rightarrow> starSkip chunk lastChunk cs))"

lemma scan_shorter: "scan inrange p = (chunk, rest) \<Longrightarrow> length rest \<le> length p"
proof (induction inrange p arbitrary: chunk rest rule: scan.induct)
  case (3 inrange c d ds)
  then show ?case
    by (fastforce split: if_splits prod.splits)
qed (auto split: if_splits)

lemma scan_no_star:
  assumes "scan False p = (chunk, rest)" and "p \<noteq> []" and "hd p \<noteq> CHR ''*''"
  shows "length rest < length p"
proof (cases p)
  case Nil
  with assms(2) show ?thesis by simp
next
  case (Cons c cs)
  show ?thesis
  proof (cases cs)
    case Nil
    with Cons assms show ?thesis by (auto split: if_splits)
  next
    case (Cons d ds)
    with \<open>p = c # cs\<close> have p: "p = c # d # ds" by simp
    show ?thesis
      using assms(1,3) scan_shorter [of _ ds] scan_shorter [of _ "d # ds"] unfolding p
      by (fastforce split: if_splits prod.splits)
  qed
qed

lemma scanChunk_shorter:
  assumes "scanChunk pattern = (star, chunk, rest)" and "pattern \<noteq> []"
  shows "length rest < length pattern"
proof -
  let ?p = "dropWhile (\<lambda>c. c = CHR ''*'') pattern"
  from assms(1) have sc: "scan False ?p = (chunk, rest)"
    by (auto simp: scanChunk_def Let_def split: prod.splits)
  have le: "length ?p \<le> length pattern" by (rule length_dropWhile_le)
  show ?thesis
  proof (cases "?p = []")
    case True
    with sc have "rest = []" by simp
    with assms(2) show ?thesis by simp
  next
    case False
    then have "hd ?p \<noteq> CHR ''*''" using hd_dropWhile [of "\<lambda>c. c = CHR ''*''" pattern] by blast
    from scan_no_star [OF sc False this] le show ?thesis by simp
  qed
qed

text \<open>
  After a failed match the library still scans the rest of the pattern, so that a
  malformed pattern is reported even when the name did not match.
\<close>

function checkRest :: "string \<Rightarrow> error + bool" where
  "checkRest pattern =
     (if pattern = [] then Inr False
      else (case scanChunk pattern of
              (star, chunk, rest) \<Rightarrow>
                (case matchChunk chunk [] of
                   Inl err \<Rightarrow> Inl err
                 | Inr r \<Rightarrow> checkRest rest)))"
  by pat_completeness auto
termination
  by (relation "measure length") (auto dest: scanChunk_shorter [OF sym])

function Match :: "string \<Rightarrow> string \<Rightarrow> error + bool" where
  "Match pattern name =
     (if pattern = [] then Inr (name = [])
      else (case scanChunk pattern of
              (star, chunk, rest) \<Rightarrow>
                if star \<and> chunk = [] then Inr (\<not> Contains name [Separator])
                else (case matchChunk chunk name of
                        Inl err \<Rightarrow> Inl err
                      | Inr r \<Rightarrow>
                          if r \<noteq> None \<and> (the r = [] \<or> rest \<noteq> []) then Match rest (the r)
                          else if star then
                            (case starSkip chunk (rest = []) name of
                               Inl err \<Rightarrow> Inl err
                             | Inr (Some t) \<Rightarrow> Match rest t
                             | Inr None \<Rightarrow> checkRest rest)
                          else checkRest rest)))"
  by pat_completeness auto
termination
  by (relation "measure (\<lambda>(pattern, name). length pattern)")
     (auto dest: scanChunk_shorter [OF sym])

subsection \<open>Observable effects\<close>

text \<open>
  What the program does besides computing values: text written with the \<open>fmt\<close>
  print functions, a line written with \<open>log.Printf\<close> (its timestamp prefix is
  left out), and a child process started with \<open>exec.Command(...).Run()\<close>.
\<close>

datatype effect =
    Print string
  | Log string
  | Exec string "string list"

definition newline :: string where
  "newline = [CHR 0x0A]"

fun isExec :: "effect \<Rightarrow> bool" where
  "isExec (Exec c as) = True"
| "isExec e = False"

subsection \<open>runRsync\<close>

text \<open>
  The argument slice starts as \<open>["-a"]\<close>; its first element grows by a letter for
  verbose and for compress, and the remaining arguments are appended in the order of
  the source. The range loop over the exclusions is \<open>excludeArgs\<close>.
\<close>

fun excludeArgs :: "string list \<Rightarrow> string list \<Rightarrow> string list" where
  "excludeArgs rsyncArgs [] = rsyncArgs"
| "excludeArgs rsyncArgs (exclude # rest) =
     excludeArgs (rsyncArgs @ [''--exclude'', exclude]) rest"

definition rsyncArgs ::
  "string \<Rightarrow> string \<Rightarrow> string list \<Rightarrow> bool \<Rightarrow> bool \<Rightarrow> bool \<Rightarrow> bool \<Rightarrow> string list" where
  "rsyncArgs source destination exclusions compress verbose progress delete =
     (let a0 = [''-a''];
          a1 = (if verbose then [hd a0 @ ''v''] else a0);
          a2 = (if compress then [hd a1 @ ''z''] else a1);
          a3 = (if progress then a2 @ [''--progress''] else a2);
          a4 = (if delete then a3 @ [''--delete''] else a3);
          a5 = excludeArgs a4 exclusions
      in a5 @ [source @ ''/'', destination])"

text \<open>
  \<open>cmdRun\<close> stands for the outcome of running the child process: \<open>None\<close> when
  it exits with status zero, otherwise the error. A failure is printed and nothing
  else happens: runRsync returns normally either way.
\<close>

definition runRsync ::
  "(string list \<Rightarrow> error option) \<Rightarrow> string \<Rightarrow> string \<Rightarrow> string list
     \<Rightarrow> bool \<Rightarrow> bool \<Rightarrow> bool \<Rightarrow> bool \<Rightarrow> effect list" where
  "runRsync cmdRun source destination exclusions compress verbose progress delete =
     (let args = rsyncArgs source destination exclusions compress verbose progress delete
      in [Exec ''rsync'' args,
          (case cmdRun args of
             Some err \<Rightarrow> Print (''Error: rsync command failed: '' @ err @ newline)
           | None \<Rightarrow> Print (''Sync completed successfully.'' @ newline))])"

subsection \<open>isExcluded\<close>

text \<open>
  One pass of the loop body for one pattern: \<open>(out, True)\<close> is \<open>return true\<close>,
  \<open>(out, False)\<close> is falling out of the body (or \<open>continue\<close>) into the next
  iteration; \<open>out\<close> is what the body printed.
\<close>

definition excludedBy :: "string \<Rightarrow> string \<Rightarrow> effect list \<times> bool" where
  "excludedBy relPath pattern =
     (case (if Contains pattern ''*'' then Match pattern (Base relPath) else Inr False) of
        Inl err \<Rightarrow> ([Print (''Error: Invalid pattern '' @ pattern @ newline)], False)
      | Inr matched \<Rightarrow>
          if matched then ([], True)
          else if HasPrefix pattern ''/'' \<and> relPath = TrimPrefix pattern ''/'' then ([], True)
          else if Base relPath = pattern then ([], True)
          else ([], False))"

fun excludedLoop :: "string \<Rightarrow> string list \<Rightarrow> effect list \<times> bool" where
  "excludedLoop relPath [] = ([], False)"
| "excludedLoop relPath (pattern # rest) =
     (case excludedBy relPath pattern of
        (out, True) \<Rightarrow> (out, True)
      | (out, False) \<Rightarrow> (case excludedLoop relPath rest of (out', r) \<Rightarrow> (out @ out', r)))"

text \<open>
  \<open>getwd\<close> is the result of \<open>os.Getwd()\<close>. The path is made relative to that
  directory; the function has no other notion of a root.
\<close>

definition isExcluded :: "(error + string) \<Rightarrow> string \<Rightarrow> string list \<Rightarrow> effect list \<times> bool" where
  "isExcluded getwd path exclusions =
     (case getwd of
        Inl err \<Rightarrow>
          ([Print (''Error: Unable to get current working directory: '' @ err @ newline)], False)
      | Inr cwd \<Rightarrow>
          (case Rel cwd path of
             Inl err \<Rightarrow> ([Print (''Error: Unable to make path relative: '' @ err @ newline)], False)
           | Inr relPath \<Rightarrow>
               (case excludedLoop relPath exclusions of
                  (out, r) \<Rightarrow> (Log (''relPath: '' @ relPath @ '', cwd: '' @ cwd) # out, r))))"

subsection \<open>Endpoints\<close>

record syncEndpoint =
  name :: string
  rsyncPath :: string
  isLocal :: bool
  localPath :: string

definition formatRemotePath :: "string \<Rightarrow> string \<Rightarrow> string" where
  "formatRemotePath host relativePath =
     (let trimmed0 = (if relativePath = [] then ''.'' else relativePath);
          trimmed1 = TrimPrefix trimmed0 ''./'';
          trimmed = TrimPrefix trimmed1 ''/'';
          remoteBase = ''~''
      in if trimmed = ''.'' \<or> trimmed = [] then host @ '':'' @ remoteBase @ ''/''
         else let remoteBase' = (if trimmed \<noteq> [] then remoteBase @ ''/'' @ trimmed else remoteBase)
              in host @ '':'' @ remoteBase')"

definition newEndpoint ::
  "(error + string) \<Rightarrow> string \<Rightarrow> string \<Rightarrow> string \<Rightarrow> error + syncEndpoint" where
  "newEndpoint getwd arg cwd relativePath =
     (let cleanCwd = Clean cwd in
      if arg = [] \<or> arg = ''.'' \<or> HasPrefix arg ''./'' \<or> HasPrefix arg ''../'' \<or> IsAbs arg then
        (if arg \<noteq> [] \<and> arg \<noteq> ''.'' then
           (case Abs getwd arg of
              Inl err \<Rightarrow> Inl err
            | Inr absPath \<Rightarrow>
                (let lp = Clean absPath
                 in Inr \<lparr>name = lp, rsyncPath = lp, isLocal = True, localPath = lp\<rparr>))
         else Inr \<lparr>name = cleanCwd, rsyncPath = cleanCwd, isLocal = True, localPath = cleanCwd\<rparr>)
      else
        (let remotePath = formatRemotePath arg relativePath
         in Inr \<lparr>name = remotePath, rsyncPath = remotePath, isLocal = False, localPath = []\<rparr>))"

subsection \<open>loadIgnoreFile\<close>

text \<open>
  What \<open>os.Open\<close> and the line scanner can deliver: no such file, another failure
  to open, or the lines read together with the scanner's final error, if any.
\<close>

datatype ignoreFile = NoSuchFile error | Unreadable error | Lines "string list" "error option"

fun ignoreLines :: "string list \<Rightarrow> string list \<Rightarrow> string list" where
  "ignoreLines exclusions [] = exclusions"
| "ignoreLines exclusions (text # rest) =
     (let line = TrimSpace text
      in if line = [] \<or> HasPrefix line ''#'' then ignoreLines exclusions rest
         else ignoreLines (exclusions @ [line]) rest)"

definition loadIgnoreFile :: "(string \<Rightarrow> ignoreFile) \<Rightarrow> string \<Rightarrow> error + string list" where
  "loadIgnoreFile osOpen dir =
     (let ignoreFilePath = Join dir ''.ssyncignore''
      in case osOpen ignoreFilePath of
           NoSuchFile err \<Rightarrow> Inr []
         | Unreadable err \<Rightarrow> Inl err
         | Lines ls scanErr \<Rightarrow>
             (let exclusions = ignoreLines [] ls
              in case scanErr of Some err \<Rightarrow> Inl err | None \<Rightarrow> Inr exclusions))"

subsection \<open>main\<close>

text \<open>
  The surroundings of one run: the positional arguments left by \<open>flag.Parse\<close>, the
  parsed values of \<open>-watch\<close> and \<open>-changes\<close>, the answers of the operating system,
  and the outcome of each child process. The variables \<open>compress\<close>, \<open>progress\<close>,
  \<open>delete\<close> and \<open>verbose\<close> are copied from their flag variables before
  \<open>flag.Parse\<close> runs, so they hold the flags' defaults.
\<close>

record env =
  envArgs :: "string list"
  envWatch :: bool
  envChanges :: string
  envGetwd :: "error + string"
  envUserHomeDir :: "error + string"
  envOpen :: "string \<Rightarrow> ignoreFile"
  envCmdRun :: "string list \<Rightarrow> error option"

text \<open>
  How main ends: \<open>os.Exit\<close> with a code, falling off the end (exit code 0), or the
  call of startWatcher, which does not return.
\<close>

datatype outcome =
    Exit nat
  | Return
  | StartWatcher string string "string list" "string list" bool bool bool bool

definition usage :: string where
  \<open>usage = concat (map (\<lambda>l. l @ newline)
     [''ssync by Alex Ellis, Copyright 2025'',
      [],
      ''Usage: ssync [-watch=false] [-changes "write,delete"] [-compress=false] [-progress=false] [-delete]'',
      ''       ssync <destination>'',
      ''       ssync . <destination>'',
      ''       ssync <destination> .'',
      [],
      ''Use "." to represent the current directory. Example flows:'',
      ''  ssync bq         # same as "ssync . bq" (push local -> remote)'',
      ''  ssync . bq       # explicit push local -> remote'',
      ''  ssync bq .       # pull remote -> local'',
      [],
      ''Use "--delete" to mirror the destination (removes files missing from the source)'',
      [],
      ''To ignore large files i.e. binaries, create a .ssyncignore file'',
      [],
      ''[Push mode] The remote folder is created automatically if it doesn't exist'',
      ''already'',
      [],
      ''[Pull mode] You need to create the folder locally, and cd into it'',
      ''before running ssync.'',
      [],
      ''Learn more https://github.com/alexellis/ssync''])\<close>

definition changeListOf :: "string \<Rightarrow> string list" where
  "changeListOf changes = map (\<lambda>c. ToUpper (TrimSpace c)) (splitOn CHR '','' changes)"

text \<open>
  \<open>sourceArg\<close> is \<open>.\<close> and \<open>destArg\<close> is the only argument, unless there are
  two arguments.
\<close>

definition sourceArgOf :: "string list \<Rightarrow> string" where
  "sourceArgOf args = (if length args = 2 then args ! 0 else ''.'')"

definition destArgOf :: "string list \<Rightarrow> string" where
  "destArgOf args = (if length args = 2 then args ! 1 else args ! 0)"

definition main :: "env \<Rightarrow> effect list \<times> outcome" where
  "main e =
     (let compress = True; progress = True; delete = False; verbose = True;
          args = envArgs e
      in if length args = 0 \<or> length args > 2 then ([Print usage], Exit 1)
      else
        let sourceArg = sourceArgOf args;
            destArg = destArgOf args
        in case envGetwd e of
          Inl err \<Rightarrow>
            ([Print (''Error: Unable to get current working directory: '' @ err @ newline)], Exit 1)
        | Inr cwd \<Rightarrow>
        (case envUserHomeDir e of
          Inl err \<Rightarrow>
            ([Print (''Error: Unable to get user's home directory: '' @ err @ newline)], Exit 1)
        | Inr homeDir \<Rightarrow>
        (case Rel homeDir cwd of
          Inl err \<Rightarrow>
            ([Print (''Error: Unable to compute relative path: '' @ err @ newline)], Exit 1)
        | Inr relativePath \<Rightarrow>
        (case newEndpoint (envGetwd e) sourceArg cwd relativePath of
          Inl err \<Rightarrow>
            ([Print (''Error: Unable to determine source: '' @ err @ newline)], Exit 1)
        | Inr sourceEndpoint \<Rightarrow>
        (case newEndpoint (envGetwd e) destArg cwd relativePath of
          Inl err \<Rightarrow>
            ([Print (''Error: Unable to determine destination: '' @ err @ newline)], Exit 1)
        | Inr destEndpoint \<Rightarrow>
        if \<not> isLocal sourceEndpoint \<and> \<not> isLocal destEndpoint then
          ([Print (''Error: Either the source or destination must be the local machine.'' @ newline)],
           Exit 1)
        else
          let ignoreBase = (if isLocal sourceEndpoint then localPath sourceEndpoint
                            else if isLocal destEndpoint then localPath destEndpoint
                            else cwd)
          in case loadIgnoreFile (envOpen e) ignoreBase of
            Inl err \<Rightarrow>
              ([Print (''Error: Unable to load .ssyncignore file: '' @ err @ newline)], Exit 1)
          | Inr exclusions \<Rightarrow>
            let banner = Print (''ssync - Copyright Alex Ellis 2024'' @ newline @ newline
                           @ name sourceEndpoint @ newline @ ''=>'' @ newline
                           @ name destEndpoint @ newline @ newline);
                sync = runRsync (envCmdRun e) (rsyncPath sourceEndpoint) (rsyncPath destEndpoint)
                         exclusions compress verbose progress delete
            in if envWatch e then
                 (if isLocal sourceEndpoint then
                    (banner # sync
                       @ [Print (newline @ ''Watching '' @ localPath sourceEndpoint
                            @ '' for changes...'' @ newline)],
                     StartWatcher (localPath sourceEndpoint) (rsyncPath destEndpoint) exclusions
                       (changeListOf (envChanges e)) compress verbose progress delete)
                  else
                    (banner # sync
                       @ [Print (''Watch mode is only available when syncing from the local machine. Skipping watcher.''
                            @ newline)],
                     Return))
               else
                 (banner # sync @ [Print (''Sync completed. Watch mode disabled.'' @ newline)],
                  Return))))))"

subsection \<open>startWatcher: event filter and debounce timer\<close>

text \<open>
  The model starts where the watcher has been created and the source directory has
  been added to it; it covers the select loop and the timer. An fsnotify event
  carries a path and an operation bit mask
  (Create = 1, Write = 2, Remove = 4, Rename = 8, Chmod = 16).
\<close>

unbundle bit_operations_syntax

record event =
  evName :: string
  evOp :: "32 word"

definition opCreate :: "32 word" where "opCreate = 1"
definition opWrite :: "32 word" where "opWrite = 2"
definition opRemove :: "32 word" where "opRemove = 4"
definition opRename :: "32 word" where "opRename = 8"
definition opChmod :: "32 word" where "opChmod = 16"

fun isWatchedEvent :: "event \<Rightarrow> string list \<Rightarrow> bool" where
  "isWatchedEvent ev [] = False"
| "isWatchedEvent ev (changeType # rest) =
     (let kind = ToLower changeType in
      if kind = ''write'' \<and> evOp ev = opWrite then True
      else if kind = ''remove'' \<and> evOp ev = opRemove then True
      else if kind = ''chmod'' \<and> evOp ev = opChmod then True
      else if kind = ''create'' \<and> evOp ev = opCreate then True
      else if kind = ''rename'' \<and> evOp ev = opRename then True
      else isWatchedEvent ev rest)"

definition opString :: "32 word \<Rightarrow> string" where
  "opString evop =
     (let b = (if evop AND opCreate \<noteq> 0 then ''|CREATE'' else [])
            @ (if evop AND opRemove \<noteq> 0 then ''|REMOVE'' else [])
            @ (if evop AND opWrite \<noteq> 0 then ''|WRITE'' else [])
            @ (if evop AND opRename \<noteq> 0 then ''|RENAME'' else [])
            @ (if evop AND opChmod \<noteq> 0 then ''|CHMOD'' else [])
      in if b = [] then ''[no events]'' else tl b)"

text \<open>
  Time is counted in nanoseconds, as \<open>time.Duration\<close> does. The runtime keeps the
  timers that were started with \<open>time.AfterFunc\<close> and have neither fired nor been
  stopped; \<open>Stop\<close> removes a timer from them, and has no effect on one that is no
  longer there.
\<close>

definition debounceDelay :: nat where
  "debounceDelay = 2 * 1000000000"

record timer =
  timerId :: nat
  fireAt :: nat

text \<open>
  The state of a running watcher: the clock, the variable \<open>syncTimer\<close> (\<open>None\<close>
  is nil), the runtime's pending timers, the next fresh timer handle, the instants at
  which the deferred function ran, and everything printed or executed so far.
\<close>

record watcher =
  clock :: nat
  syncTimer :: "nat option"
  pending :: "timer list"
  nextTimer :: nat
  syncs :: "nat list"
  printed :: "effect list"

record watchConfig =
  wSource :: string
  wDestination :: string
  wExclusions :: "string list"
  wChangeList :: "string list"
  wCompress :: bool
  wVerbose :: bool
  wProgress :: bool
  wDelete :: bool
  wGetwd :: "error + string"
  wCmdRun :: "string list \<Rightarrow> error option"

definition timerStop :: "nat \<Rightarrow> watcher \<Rightarrow> watcher" where
  "timerStop h w = w\<lparr>pending := filter (\<lambda>t. timerId t \<noteq> h) (pending w)\<rparr>"

definition afterFunc :: "nat \<Rightarrow> watcher \<Rightarrow> nat \<times> watcher" where
  "afterFunc d w =
     (nextTimer w,
      w\<lparr>pending := pending w @ [\<lparr>timerId = nextTimer w, fireAt = clock w + d\<rparr>],
        nextTimer := Suc (nextTimer w)\<rparr>)"

text \<open>The deferred function: one call of runRsync, at the instant the timer fires.\<close>

definition fireTimer :: "watchConfig \<Rightarrow> timer \<Rightarrow> watcher \<Rightarrow> watcher" where
  "fireTimer cfg t w =
     w\<lparr>syncs := syncs w @ [fireAt t],
       printed := printed w @ runRsync (wCmdRun cfg) (wSource cfg) (wDestination cfg)
                   (wExclusions cfg) (wCompress cfg) (wVerbose cfg) (wProgress cfg) (wDelete cfg)\<rparr>"

text \<open>Letting time pass until \<open>now\<close>: every pending timer that is due fires.\<close>

definition advance :: "watchConfig \<Rightarrow> nat \<Rightarrow> watcher \<Rightarrow> watcher" where
  "advance cfg now w =
     (let due = filter (\<lambda>t. fireAt t \<le> now) (pending w);
          w' = fold (fireTimer cfg) due w
      in w'\<lparr>clock := max (clock w) now, pending := filter (\<lambda>t. \<not> fireAt t \<le> now) (pending w)\<rparr>)"

datatype watchInput = EventIn event | ErrorIn error

text \<open>One iteration of the select loop.\<close>

definition handleInput :: "watchConfig \<Rightarrow> watchInput \<Rightarrow> watcher \<Rightarrow> watcher" where
  "handleInput cfg i w =
     (case i of
        ErrorIn err \<Rightarrow> w\<lparr>printed := printed w @ [Print (''Error watching files: '' @ err @ newline)]\<rparr>
      | EventIn ev \<Rightarrow>
          if \<not> isWatchedEvent ev (wChangeList cfg) then w
          else (case isExcluded (wGetwd cfg) (evName ev) (wExclusions cfg) of
                  (out, True) \<Rightarrow> w\<lparr>printed := printed w @ out\<rparr>
                | (out, False) \<Rightarrow>
                    (let name0 = TrimPrefix (evName ev) (wSource cfg);
                         name1 = TrimPrefix name0 ''/'';
                         w1 = w\<lparr>printed := printed w @ out
                                 @ [Print (''['' @ ToLower (opString (evOp ev)) @ ''] '' @ name1 @ newline)]\<rparr>;
                         w2 = (case syncTimer w1 of None \<Rightarrow> w1 | Some h \<Rightarrow> timerStop h w1)
                      in case afterFunc debounceDelay w2 of
                           (h, w3) \<Rightarrow> w3\<lparr>syncTimer := Some h\<rparr>)))"

text \<open>
  A run of the watcher over inputs stamped with their arrival times: before an input
  is handled, the timers due by then have fired.
\<close>

fun watchRun :: "watchConfig \<Rightarrow> watcher \<Rightarrow> (nat \<times> watchInput) list \<Rightarrow> watcher" where
  "watchRun cfg w [] = w"
| "watchRun cfg w ((at, i) # rest) = watchRun cfg (handleInput cfg i (advance cfg at w)) rest"

definition watcherStart :: watcher where
  "watcherStart = \<lparr>clock = 0, syncTimer = None, pending = [], nextTimer = 0, syncs = [], printed = []\<rparr>"

text \<open>An event qualifies when its kind is watched and its path is not excluded.\<close>

definition qualifies :: "watchConfig \<Rightarrow> watchInput \<Rightarrow> bool" where
  "qualifies cfg i =
     (case i of
        ErrorIn err \<Rightarrow> False
      | EventIn ev \<Rightarrow> isWatchedEvent ev (wChangeList cfg)
                      \<and> \<not> snd (isExcluded (wGetwd cfg) (evName ev) (wExclusions cfg)))"

text \<open>A burst: arrival times in order, each less than the delay after the one before.\<close>

fun burst :: "nat list \<Rightarrow> bool" where
  "burst [] = True"
| "burst [a] = True"
| "burst (a # b # rest) = (a \<le> b \<and> b < a + debounceDelay \<and> burst (b # rest))"

subsection \<open>The matching rules, stated on their own\<close>

text \<open>
  The three rules a pattern can match by. A pattern that contains a star and is not a
  well-formed glob matches by none of them. These predicates are what the theorems
  compare the loop of isExcluded with.
\<close>

definition invalidGlob :: "string \<Rightarrow> string \<Rightarrow> bool" where
  "invalidGlob relPath pattern = (Contains pattern ''*'' \<and> isl (Match pattern (Base relPath)))"

definition globRule :: "string \<Rightarrow> string \<Rightarrow> bool" where
  "globRule relPath pattern = (Contains pattern ''*'' \<and> Match pattern (Base relPath) = Inr True)"

definition rootedRule :: "string \<Rightarrow> string \<Rightarrow> bool" where
  "rootedRule relPath pattern = (HasPrefix pattern ''/'' \<and> relPath = TrimPrefix pattern ''/'')"

definition basenameRule :: "string \<Rightarrow> string \<Rightarrow> bool" where
  "basenameRule relPath pattern = (Base relPath = pattern)"

definition patternMatches :: "string \<Rightarrow> string \<Rightarrow> bool" where
  "patternMatches relPath pattern =
     (\<not> invalidGlob relPath pattern
      \<and> (globRule relPath pattern \<or> rootedRule relPath pattern \<or> basenameRule relPath pattern))"

text \<open>The path isExcluded matches against, when it can be computed.\<close>

definition normalized :: "(error + string) \<Rightarrow> string \<Rightarrow> string option" where
  "normalized getwd path =
     (case getwd of
        Inl err \<Rightarrow> None
      | Inr cwd \<Rightarrow> (case Rel cwd path of Inl err \<Rightarrow> None | Inr relPath \<Rightarrow> Some relPath))"

subsection \<open>Concrete runs\<close>

text \<open>
  A run in \<open>/home/u/p\<close> by a user whose home directory is \<open>/home/u\<close>, where
  every attempt to open a file gives \<open>f\<close> and every child process succeeds.
\<close>

definition exampleEnv :: "string list \<Rightarrow> bool \<Rightarrow> ignoreFile \<Rightarrow> env" where
  "exampleEnv args watch f =
     \<lparr>envArgs = args, envWatch = watch, envChanges = ''write,remove,chmod,rename'',
      envGetwd = Inr ''/home/u/p'', envUserHomeDir = Inr ''/home/u'',
      envOpen = (\<lambda>p. f), envCmdRun = (\<lambda>a. None)\<rparr>"

fun isStartWatcher :: "outcome \<Rightarrow> bool" where
  "isStartWatcher (StartWatcher s d ex cl c v p del) = True"
| "isStartWatcher x = False"

text \<open>
  The invariant of the select loop: the runtime holds no timer of the watcher, or it
  holds exactly the one that \<open>syncTimer\<close> refers to.
\<close>

definition timerInv :: "watcher \<Rightarrow> bool" where
  "timerInv w =
     (length (pending w) \<le> 1 \<and> list_all (\<lambda>t. syncTimer w = Some (timerId t)) (pending w))"

text \<open>A watcher on \<open>/w\<close> pushing to \<open>bq\<close>, and two writes one second apart.\<close>

definition exampleWatch :: watchConfig where
  "exampleWatch =
     \<lparr>wSource = ''/w'', wDestination = ''bq:~/w'', wExclusions = [''*.swp''],
      wChangeList = [''WRITE'', ''REMOVE'', ''CHMOD'', ''RENAME''],
      wCompress = True, wVerbose = True, wProgress = True, wDelete = False,
      wGetwd = Inr ''/w'', wCmdRun = (\<lambda>a. None)\<rparr>"

definition writeOf :: "string \<Rightarrow> watchInput" where
  "writeOf path = EventIn \<lparr>evName = path, evOp = opWrite\<rparr>"

subsection \<open>The shape of a cleaned path\<close>

text \<open>
  The elements of a path written with separators between them, and what an element
  of a cleaned path looks like: not empty, not \<open>.\<close>, and free of separators.
  The proofs about \<open>Clean\<close> and \<open>Rel\<close> show that their results have this shape.
\<close>

fun joinElems :: "string list \<Rightarrow> string" where
  "joinElems [] = []"
| "joinElems [e] = e"
| "joinElems (e # es) = e @ Separator # joinElems es"

definition goodElem :: "string \<Rightarrow> bool" where
  "goodElem e = (e \<noteq> [] \<and> e \<noteq> ''.'' \<and> Separator \<notin> set e)"

definition render :: "bool \<Rightarrow> string list \<Rightarrow> string" where
  "render rooted es = (if rooted then Separator # joinElems es else joinElems es)"

text \<open>
  What holds of the buffer of \<open>Clean\<close> between two elements: it is a rendering of
  good elements, and \<open>dotdot\<close> lies in it at the end of one of them.
\<close>

definition cleanInv :: "bool \<Rightarrow> string list \<Rightarrow> string \<Rightarrow> nat \<Rightarrow> bool" where
  "cleanInv rooted es out dotdot =
     ((\<forall>e \<in> set es. goodElem e) \<and> out = render rooted es \<and> dotdot \<le> length out
      \<and> (rooted \<longrightarrow> 1 \<le> dotdot)
      \<and> (\<exists>k. take dotdot out = render rooted (take k es)))"

section \<open>Theorems\<close>

subsection \<open>The library functions on sample inputs\<close>

text \<open>
  The models of \<open>Clean\<close>, \<open>Rel\<close> and \<open>Match\<close> evaluated on inputs that
  exercise their branches; the values are the ones the library gives.
\<close>

lemma Clean_examples:
  "Clean ''abc/def'' = ''abc/def''
   \<and> Clean ''.'' = ''.''
   \<and> Clean ''..'' = ''..''
   \<and> Clean ''../../abc'' = ''../../abc''
   \<and> Clean ''/'' = ''/''
   \<and> Clean [] = ''.''
   \<and> Clean ''abc/'' = ''abc''
   \<and> Clean ''./'' = ''.''
   \<and> Clean ''../../'' = ''../..''
   \<and> Clean ''abc//def//ghi'' = ''abc/def/ghi''
   \<and> Clean ''/./abc/def'' = ''/abc/def''
   \<and> Clean ''abc/.'' = ''abc''
   \<and> Clean ''abc/def/../ghi/../jkl'' = ''abc/jkl''
   \<and> Clean ''abc/def/../..'' = ''.''
   \<and> Clean ''/abc/def/../..'' = ''/''
   \<and> Clean ''abc/def/../../..'' = ''..''
   \<and> Clean ''/abc/def/../../..'' = ''/''
   \<and> Clean ''abc/def/../../../ghi/jkl/../../../mno'' = ''../../mno''
   \<and> Clean ''/../abc'' = ''/abc''
   \<and> Clean ''abc/../../././../def'' = ''../../def''"
  by code_simp

lemma Rel_examples:
  "Rel ''a/b'' ''a/b'' = Inr ''.''
   \<and> Rel ''a/b/.'' ''a/b'' = Inr ''.''
   \<and> Rel ''ab/cd'' ''ab/cde'' = Inr ''../cde''
   \<and> Rel ''a/b'' ''a/b/c/d'' = Inr ''c/d''
   \<and> Rel ''a/b/../c'' ''a/b'' = Inr ''../b''
   \<and> Rel ''a/b/c'' ''a/c/d'' = Inr ''../../c/d''
   \<and> Rel ''a/b/c/d/'' ''a/b/'' = Inr ''../..''
   \<and> Rel ''/a/b'' ''/a/b/.'' = Inr ''.''
   \<and> Rel ''/ab/cd'' ''/ab/c'' = Inr ''../c''
   \<and> Rel ''/a/b'' ''/a/b/c/d'' = Inr ''c/d''
   \<and> Rel ''/a/b/c'' ''/a/c/d'' = Inr ''../../c/d''
   \<and> Rel ''/a/b/c/d'' ''/a/b'' = Inr ''../..''
   \<and> Rel ''/'' ''/a/b'' = Inr ''a/b''
   \<and> Rel ''.'' ''a/b'' = Inr ''a/b''
   \<and> Rel ''.'' ''..'' = Inr ''..''
   \<and> isl (Rel ''..'' ''.'')
   \<and> isl (Rel ''..'' ''a'')
   \<and> isl (Rel ''a'' ''/a'')
   \<and> isl (Rel ''/a'' ''a'')"
  by code_simp

lemma Match_examples:
  "Match ''abc'' ''abc'' = Inr True
   \<and> Match ''*'' ''abc'' = Inr True
   \<and> Match ''*c'' ''abc'' = Inr True
   \<and> Match ''a*'' ''a'' = Inr True
   \<and> Match ''a*'' ''ab/c'' = Inr False
   \<and> Match ''a*/b'' ''abc/b'' = Inr True
   \<and> Match ''a*/b'' ''a/c/b'' = Inr False
   \<and> Match ''a*b*c*d*e*/f'' ''axbxcxdxexxx/f'' = Inr True
   \<and> Match ''a*b?c*x'' ''abxbbxdbxebxczzx'' = Inr True
   \<and> Match ''a*b?c*x'' ''abxbbxdbxebxczzy'' = Inr False
   \<and> Match ''ab[b-d]'' ''abc'' = Inr True
   \<and> Match ''ab[e-g]'' ''abc'' = Inr False
   \<and> Match ''ab[^c]'' ''abc'' = Inr False
   \<and> Match ''ab[^e-g]'' ''abc'' = Inr True
   \<and> Match (''a'' @ [backslash] @ ''*b'') ''a*b'' = Inr True
   \<and> Match (''a'' @ [backslash] @ ''*b'') ''ab'' = Inr False
   \<and> Match ''a?b'' ''a/b'' = Inr False
   \<and> Match (''['' @ [backslash] @ '']a]'') '']'' = Inr True
   \<and> Match (''[x'' @ [backslash] @ ''-]'') ''-'' = Inr True
   \<and> Match ''[]a]'' '']'' = Inl ErrBadPattern
   \<and> Match ''[-]'' ''-'' = Inl ErrBadPattern
   \<and> Match ''[x-]'' ''x'' = Inl ErrBadPattern
   \<and> Match [backslash] ''a'' = Inl ErrBadPattern
   \<and> Match ''[a-b-c]'' ''a'' = Inl ErrBadPattern
   \<and> Match ''['' ''a'' = Inl ErrBadPattern
   \<and> Match ''[^bc'' ''a'' = Inl ErrBadPattern
   \<and> Match ''a['' ''x'' = Inl ErrBadPattern
   \<and> Match ''*x'' ''xxx'' = Inr True"
  by code_simp

subsection \<open>The arguments of rsync\<close>

lemma excludeArgs_append:
  "excludeArgs acc xs = acc @ concat (map (\<lambda>e. [''--exclude'', e]) xs)"
  by (induction xs arbitrary: acc) simp_all

lemma rsyncArgs_shape:
  "rsyncArgs source destination exclusions compress verbose progress delete =
     [''-a'' @ (if verbose then ''v'' else []) @ (if compress then ''z'' else [])]
       @ (if progress then [''--progress''] else [])
       @ (if delete then [''--delete''] else [])
       @ concat (map (\<lambda>e. [''--exclude'', e]) exclusions)
       @ [source @ ''/'', destination]"
  by (simp add: rsyncArgs_def excludeArgs_append)

lemma runRsync_first:
  "hd (runRsync cmdRun source destination exclusions compress verbose progress delete) =
     Exec ''rsync'' (rsyncArgs source destination exclusions compress verbose progress delete)"
  by (simp add: runRsync_def Let_def)

lemma runRsync_exec_count:
  "length (filter isExec
     (runRsync cmdRun source destination exclusions compress verbose progress delete)) = 1"
  by (simp add: runRsync_def Let_def split: option.splits)

text \<open>
  Claim C8. For every invocation the argument list handed to rsync is, in order: one
  flag string that is \<open>-a\<close> followed by \<open>v\<close> exactly when verbose is on and by
  \<open>z\<close> exactly when compress is on; \<open>--progress\<close> when progress is on;
  \<open>--delete\<close> when delete is on; for each exclusion pattern, in list order, an
  \<open>--exclude\<close> option carrying that pattern; the source with a path separator
  appended; the destination. This list is what runRsync executes.
\<close>

theorem runRsync_argument_list:
  "rsyncArgs source destination exclusions compress verbose progress delete =
     [''-a'' @ (if verbose then ''v'' else []) @ (if compress then ''z'' else [])]
       @ (if progress then [''--progress''] else [])
       @ (if delete then [''--delete''] else [])
       @ concat (map (\<lambda>e. [''--exclude'', e]) exclusions)
       @ [source @ ''/'', destination]
   \<and> hd (runRsync cmdRun source destination exclusions compress verbose progress delete) =
       Exec ''rsync'' (rsyncArgs source destination exclusions compress verbose progress delete)
   \<and> length (filter isExec
        (runRsync cmdRun source destination exclusions compress verbose progress delete)) = 1"
  by (intro conjI rsyncArgs_shape runRsync_first runRsync_exec_count)

subsection \<open>isExcluded is an existential test over the patterns\<close>

lemma excludedBy_verdict: "snd (excludedBy relPath pattern) = patternMatches relPath pattern"
  by (cases "Match pattern (Base relPath)")
     (auto simp: excludedBy_def patternMatches_def invalidGlob_def globRule_def rootedRule_def
        basenameRule_def)

lemma excludedLoop_verdict:
  "snd (excludedLoop relPath ps) = (\<exists>p \<in> set ps. patternMatches relPath p)"
proof (induction ps)
  case Nil
  show ?case by simp
next
  case (Cons p ps)
  obtain out r where by_p: "excludedBy relPath p = (out, r)" by (cases "excludedBy relPath p")
  then have r: "r = patternMatches relPath p" using excludedBy_verdict [of relPath p] by simp
  obtain out' r' where rest: "excludedLoop relPath ps = (out', r')" by (cases "excludedLoop relPath ps")
  with Cons.IH have r': "r' = (\<exists>q \<in> set ps. patternMatches relPath q)" by simp
  show ?case using by_p rest r r' by (cases r) simp_all
qed

lemma isExcluded_verdict:
  "snd (isExcluded getwd path ps) =
     (case normalized getwd path of
        None \<Rightarrow> False
      | Some relPath \<Rightarrow> (\<exists>p \<in> set ps. patternMatches relPath p))"
proof (cases getwd)
  case (Inl err)
  then show ?thesis by (simp add: isExcluded_def normalized_def)
next
  case (Inr cwd)
  show ?thesis
  proof (cases "Rel cwd path")
    case (Inl err)
    with Inr show ?thesis by (simp add: isExcluded_def normalized_def)
  next
    case rel: (Inr relPath)
    obtain out r where l: "excludedLoop relPath ps = (out, r)" by (cases "excludedLoop relPath ps")
    with excludedLoop_verdict [of relPath ps] have "r = (\<exists>p \<in> set ps. patternMatches relPath p)"
      by simp
    with Inr rel l show ?thesis by (simp add: isExcluded_def normalized_def)
  qed
qed

lemma normalized_sub_secret: "normalized (Inr ''/w'') ''/w/sub/secret'' = Some ''sub/secret''"
  by code_simp


lemma sub_secret_rooted: "\<not> patternMatches ''sub/secret'' ''/secret''"
  by code_simp

lemma sub_secret_swp: "\<not> patternMatches ''sub/secret'' ''*.swp''"
  by code_simp



subsection \<open>Which patterns are treated as globs\<close>



lemma isExcluded_relPath:
  "getwd = Inr cwd \<Longrightarrow> Rel cwd path = Inr relPath \<Longrightarrow>
     isExcluded getwd path ps =
       (Log (''relPath: '' @ relPath @ '', cwd: '' @ cwd) # fst (excludedLoop relPath ps),
        snd (excludedLoop relPath ps))"
  by (simp add: isExcluded_def split: prod.splits)




lemma normalized_notes: "normalized (Inr ''/w'') ''/w/notes.swp'' = Some ''notes.swp''"
  by code_simp

lemma normalized_bin: "normalized (Inr ''/w'') ''/w/bin'' = Some ''bin''"
  by code_simp





subsection \<open>The example list\<close>

text \<open>
  Claim C3, as stated, fails in its last part: with the exclusion list
  \<open>["*.swp", "/secret", "bin/"]\<close> a path whose basename is \<open>bin\<close> is not
  excluded, since the pattern \<open>bin/\<close> is compared with the basename as it is.
\<close>

theorem bin_slash_pattern_does_not_exclude_bin:
  "Base ''/w/bin'' = ''bin''
   \<and> isExcluded (Inr ''/w'') ''/w/bin'' [''*.swp'', ''/secret'', ''bin/''] =
       ([Log ''relPath: bin, cwd: /w''], False)"
  by code_simp

lemma notes_swp: "patternMatches ''notes.swp'' ''*.swp''" by code_simp
lemma secret_rooted: "patternMatches ''secret'' ''/secret''" by code_simp
lemma sub_secret_bin: "\<not> patternMatches ''sub/secret'' ''bin/''" by code_simp
lemma swp_bin: "Match ''*.swp'' ''bin'' = Inr False" by code_simp
lemma base_secret: "Base ''secret'' = ''secret''" by code_simp

lemma base_bin_no_match:
  assumes "Base relPath = ''bin''"
  shows "\<not> patternMatches relPath ''*.swp''" and "\<not> patternMatches relPath ''/secret''"
    and "\<not> patternMatches relPath ''bin/''" and "patternMatches relPath ''bin''"
proof -
  show "\<not> patternMatches relPath ''*.swp''"
    using assms swp_bin
    by (simp add: patternMatches_def globRule_def rootedRule_def basenameRule_def HasPrefix_def)
  have "relPath \<noteq> ''secret''" using assms base_secret by auto
  then show "\<not> patternMatches relPath ''/secret''"
    using assms
    by (simp add: patternMatches_def globRule_def rootedRule_def basenameRule_def HasPrefix_def
        TrimPrefix_def)
  show "\<not> patternMatches relPath ''bin/''"
    using assms
    by (simp add: patternMatches_def globRule_def rootedRule_def basenameRule_def HasPrefix_def)
  show "patternMatches relPath ''bin''"
    using assms
    by (simp add: patternMatches_def invalidGlob_def basenameRule_def HasPrefix_def)
qed

text \<open>
  Claim C3, amended. With the exclusion list \<open>["*.swp", "/secret", "bin/"]\<close>,
  isExcluded answers true for the relative path \<open>notes.swp\<close>, true for
  \<open>secret\<close> at the root, false for \<open>sub/secret\<close>, and false for every path whose
  basename is \<open>bin\<close>; such a path is excluded when the list holds the bare pattern
  \<open>bin\<close> instead.
\<close>

theorem example_list_verdicts:
  assumes "normalized getwd path = Some relPath"
  shows "(relPath = ''notes.swp'' \<longrightarrow> snd (isExcluded getwd path [''*.swp'', ''/secret'', ''bin/'']))
       \<and> (relPath = ''secret'' \<longrightarrow> snd (isExcluded getwd path [''*.swp'', ''/secret'', ''bin/'']))
       \<and> (relPath = ''sub/secret'' \<longrightarrow>
            \<not> snd (isExcluded getwd path [''*.swp'', ''/secret'', ''bin/'']))
       \<and> (Base relPath = ''bin'' \<longrightarrow>
            \<not> snd (isExcluded getwd path [''*.swp'', ''/secret'', ''bin/''])
            \<and> snd (isExcluded getwd path [''*.swp'', ''/secret'', ''bin'']))"
  using assms notes_swp secret_rooted sub_secret_swp sub_secret_rooted sub_secret_bin
    base_bin_no_match [of relPath]
  by (simp add: isExcluded_verdict)

lemma normalized_secret: "normalized (Inr ''/w'') ''/w/secret'' = Some ''secret''" by code_simp
lemma base_bin: "Base ''bin'' = ''bin''" by code_simp

theorem example_list_verdicts_witness:
  "snd (isExcluded (Inr ''/w'') ''/w/notes.swp'' [''*.swp'', ''/secret'', ''bin/''])
   \<and> snd (isExcluded (Inr ''/w'') ''/w/secret'' [''*.swp'', ''/secret'', ''bin/''])
   \<and> \<not> snd (isExcluded (Inr ''/w'') ''/w/sub/secret'' [''*.swp'', ''/secret'', ''bin/''])
   \<and> \<not> snd (isExcluded (Inr ''/w'') ''/w/bin'' [''*.swp'', ''/secret'', ''bin/''])
   \<and> snd (isExcluded (Inr ''/w'') ''/w/bin'' [''*.swp'', ''/secret'', ''bin''])"
  using example_list_verdicts [OF normalized_notes] example_list_verdicts [OF normalized_secret]
    example_list_verdicts [OF normalized_sub_secret] example_list_verdicts [OF normalized_bin]
    base_bin
  by simp

subsection \<open>The directory isExcluded makes paths relative to\<close>

text \<open>
  Claim C7 at a run started as \<open>ssync ./sub host\<close> in \<open>/home/u/proj\<close>, with
  \<open>/secret\<close> in the ignore file: the watched source directory is
  \<open>/home/u/proj/sub\<close>, and relative to it the changed path is \<open>secret\<close>, which
  the pattern matches; isExcluded makes the path relative to the working directory
  instead, gets \<open>sub/secret\<close>, and answers false. When the working directory
  cannot be determined, isExcluded prints the error and answers false.
\<close>

theorem isExcluded_relative_to_working_directory:
  "map_sum id localPath (newEndpoint (Inr ''/home/u/proj'') ''./sub'' ''/home/u/proj'' ''proj'') =
     Inr ''/home/u/proj/sub''
   \<and> Rel ''/home/u/proj/sub'' ''/home/u/proj/sub/secret'' = Inr ''secret''
   \<and> patternMatches ''secret'' ''/secret''
   \<and> isExcluded (Inr ''/home/u/proj'') ''/home/u/proj/sub/secret'' [''/secret''] =
       ([Log ''relPath: sub/secret, cwd: /home/u/proj''], False)
   \<and> isExcluded (Inl ''getwd: no such file or directory'') ''/home/u/proj/sub/secret'' [''secret''] =
       ([Print (''Error: Unable to get current working directory: getwd: no such file or directory''
                  @ newline)], False)"
  by code_simp

subsection \<open>The ways main can end once both endpoints are resolved\<close>

lemma main_both_remote:
  assumes "length (envArgs e) = 1 \<or> length (envArgs e) = 2"
    and "envGetwd e = Inr cwd" and "envUserHomeDir e = Inr homeDir"
    and "Rel homeDir cwd = Inr relativePath"
    and "newEndpoint (envGetwd e) (sourceArgOf (envArgs e)) cwd relativePath = Inr s"
    and "newEndpoint (envGetwd e) (destArgOf (envArgs e)) cwd relativePath = Inr d"
    and "\<not> isLocal s" and "\<not> isLocal d"
  shows "main e =
           ([Print (''Error: Either the source or destination must be the local machine.'' @ newline)],
            Exit 1)"
proof -
  from assms(1) have len: "\<not> (length (envArgs e) = 0 \<or> length (envArgs e) > 2)" by auto
  show ?thesis
    unfolding main_def Let_def using len assms(2-8) by simp
qed

lemma main_ignore_error:
  assumes "length (envArgs e) = 1 \<or> length (envArgs e) = 2"
    and "envGetwd e = Inr cwd" and "envUserHomeDir e = Inr homeDir"
    and "Rel homeDir cwd = Inr relativePath"
    and "newEndpoint (envGetwd e) (sourceArgOf (envArgs e)) cwd relativePath = Inr s"
    and "newEndpoint (envGetwd e) (destArgOf (envArgs e)) cwd relativePath = Inr d"
    and "isLocal s \<or> isLocal d"
    and "loadIgnoreFile (envOpen e) (if isLocal s then localPath s else localPath d) = Inl err"
  shows "main e = ([Print (''Error: Unable to load .ssyncignore file: '' @ err @ newline)], Exit 1)"
proof -
  from assms(1) have len: "\<not> (length (envArgs e) = 0 \<or> length (envArgs e) > 2)" by auto
  show ?thesis
    unfolding main_def Let_def using len assms(2-8) by auto
qed

lemma main_synced:
  assumes "length (envArgs e) = 1 \<or> length (envArgs e) = 2"
    and "envGetwd e = Inr cwd" and "envUserHomeDir e = Inr homeDir"
    and "Rel homeDir cwd = Inr relativePath"
    and "newEndpoint (envGetwd e) (sourceArgOf (envArgs e)) cwd relativePath = Inr s"
    and "newEndpoint (envGetwd e) (destArgOf (envArgs e)) cwd relativePath = Inr d"
    and "isLocal s \<or> isLocal d"
    and "loadIgnoreFile (envOpen e) (if isLocal s then localPath s else localPath d) = Inr exclusions"
  shows "main e =
    (Print (''ssync - Copyright Alex Ellis 2024'' @ newline @ newline
                           @ name s @ newline @ ''=>'' @ newline
                           @ name d @ newline @ newline)
      # runRsync (envCmdRun e) (rsyncPath s) (rsyncPath d) exclusions True True True False
      @ [if envWatch e then
           if isLocal s
           then Print (newline @ ''Watching '' @ localPath s @ '' for changes...'' @ newline)
           else Print (''Watch mode is only available when syncing from the local machine. Skipping watcher.''
                         @ newline)
         else Print (''Sync completed. Watch mode disabled.'' @ newline)],
     if envWatch e \<and> isLocal s
     then StartWatcher (localPath s) (rsyncPath d) exclusions (changeListOf (envChanges e))
            True True True False
     else Return)"
proof -
  from assms(1) have len: "\<not> (length (envArgs e) = 0 \<or> length (envArgs e) > 2)" by auto
  show ?thesis
    unfolding main_def Let_def using len assms(2-8) by auto
qed

subsection \<open>Both endpoints on the same side\<close>

lemma localEndpoint: "newEndpoint (Inr ''/home/u/p'') ''.'' ''/home/u/p'' ''p'' =
  Inr \<lparr>name = ''/home/u/p'', rsyncPath = ''/home/u/p'', isLocal = True, localPath = ''/home/u/p''\<rparr>"
  by code_simp

lemma remoteEndpoint_bq: "newEndpoint (Inr ''/home/u/p'') ''bq'' ''/home/u/p'' ''p'' =
  Inr \<lparr>name = ''bq:~/p'', rsyncPath = ''bq:~/p'', isLocal = False, localPath = []\<rparr>"
  by code_simp

lemma remoteEndpoint_pi: "newEndpoint (Inr ''/home/u/p'') ''pi'' ''/home/u/p'' ''p'' =
  Inr \<lparr>name = ''pi:~/p'', rsyncPath = ''pi:~/p'', isLocal = False, localPath = []\<rparr>"
  by code_simp

lemma rel_home: "Rel ''/home/u'' ''/home/u/p'' = Inr ''p''"
  by code_simp

text \<open>
  Claim C1, as stated, fails for two local endpoints: started as \<open>ssync . .\<close>,
  both endpoints resolve as local, and main runs the transfer and ends normally.
\<close>

theorem both_local_is_synced:
  "map_sum id isLocal (newEndpoint (Inr ''/home/u/p'') ''.'' ''/home/u/p'' ''p'') = Inr True
   \<and> main (exampleEnv [''.'', ''.''] False (NoSuchFile ''no such file'')) =
       ([Print (''ssync - Copyright Alex Ellis 2024'' @ newline @ newline @ ''/home/u/p'' @ newline
                  @ ''=>'' @ newline @ ''/home/u/p'' @ newline @ newline),
         Exec ''rsync'' [''-avz'', ''--progress'', ''/home/u/p/'', ''/home/u/p''],
         Print (''Sync completed successfully.'' @ newline),
         Print (''Sync completed. Watch mode disabled.'' @ newline)],
        Return)"
  by code_simp

text \<open>
  Claim C1, amended. If both the source and the destination endpoint resolve as
  remote, main reports a configuration error and exits with code 1, and no transfer
  is invoked. If both resolve as local there is no such error: once the ignore file
  is loaded, the transfer from the one local path to the other is invoked.
\<close>

theorem endpoint_pair_validation:
  assumes "length (envArgs e) = 1 \<or> length (envArgs e) = 2"
    and "envGetwd e = Inr cwd" and "envUserHomeDir e = Inr homeDir"
    and "Rel homeDir cwd = Inr relativePath"
    and "newEndpoint (envGetwd e) (sourceArgOf (envArgs e)) cwd relativePath = Inr s"
    and "newEndpoint (envGetwd e) (destArgOf (envArgs e)) cwd relativePath = Inr d"
  shows "(\<not> isLocal s \<and> \<not> isLocal d \<longrightarrow>
            snd (main e) = Exit 1 \<and> filter isExec (fst (main e)) = [])
       \<and> (isLocal s \<and> isLocal d \<and> loadIgnoreFile (envOpen e) (localPath s) = Inr exclusions \<longrightarrow>
            snd (main e) \<noteq> Exit 1
            \<and> filter isExec (fst (main e)) =
                [Exec ''rsync'' (rsyncArgs (rsyncPath s) (rsyncPath d) exclusions True True True False)])"
proof (intro conjI impI)
  assume r: "\<not> isLocal s \<and> \<not> isLocal d"
  then have m: "main e =
           ([Print (''Error: Either the source or destination must be the local machine.'' @ newline)],
            Exit 1)"
    using main_both_remote [OF assms] by blast
  show "snd (main e) = Exit 1" by (simp add: m)
  show "filter isExec (fst (main e)) = []" by (simp add: m)
next
  assume l: "isLocal s \<and> isLocal d \<and> loadIgnoreFile (envOpen e) (localPath s) = Inr exclusions"
  then have a: "isLocal s \<or> isLocal d"
    and b: "loadIgnoreFile (envOpen e) (if isLocal s then localPath s else localPath d) = Inr exclusions"
    by simp_all
  note m = main_synced [OF assms a b]
  show "snd (main e) \<noteq> Exit 1" by (simp add: m)
  show "filter isExec (fst (main e)) =
                [Exec ''rsync'' (rsyncArgs (rsyncPath s) (rsyncPath d) exclusions True True True False)]"
    by (simp add: m runRsync_def Let_def split: option.splits)
qed

lemma exampleEnv_fields:
  "envArgs (exampleEnv args watch f) = args"
  "envWatch (exampleEnv args watch f) = watch"
  "envGetwd (exampleEnv args watch f) = Inr ''/home/u/p''"
  "envUserHomeDir (exampleEnv args watch f) = Inr ''/home/u''"
  "envOpen (exampleEnv args watch f) = (\<lambda>p. f)"
  by (simp_all add: exampleEnv_def)

lemma load_missing: "loadIgnoreFile (\<lambda>p. NoSuchFile err) dir = Inr []"
  by (simp add: loadIgnoreFile_def)

theorem endpoint_pair_validation_witness:
  "snd (main (exampleEnv [''bq'', ''pi''] True (NoSuchFile ''no such file''))) = Exit 1
   \<and> filter isExec (fst (main (exampleEnv [''bq'', ''pi''] True (NoSuchFile ''no such file'')))) = []
   \<and> snd (main (exampleEnv [''.'', ''.''] True (NoSuchFile ''no such file''))) \<noteq> Exit 1
   \<and> filter isExec (fst (main (exampleEnv [''.'', ''.''] True (NoSuchFile ''no such file'')))) =
       [Exec ''rsync'' [''-avz'', ''--progress'', ''/home/u/p/'', ''/home/u/p'']]"
proof -
  let ?r = "exampleEnv [''bq'', ''pi''] True (NoSuchFile ''no such file'')"
  let ?l = "exampleEnv [''.'', ''.''] True (NoSuchFile ''no such file'')"
  have r: "snd (main ?r) = Exit 1 \<and> filter isExec (fst (main ?r)) = []"
    using endpoint_pair_validation [of ?r "''/home/u/p''" "''/home/u''" "''p''"
        "\<lparr>name = ''bq:~/p'', rsyncPath = ''bq:~/p'', isLocal = False, localPath = []\<rparr>"
        "\<lparr>name = ''pi:~/p'', rsyncPath = ''pi:~/p'', isLocal = False, localPath = []\<rparr>" "[]"]
    by (simp add: exampleEnv_fields sourceArgOf_def destArgOf_def rel_home remoteEndpoint_bq
        remoteEndpoint_pi)
  have args: "rsyncArgs ''/home/u/p'' ''/home/u/p'' [] True True True False =
      [''-avz'', ''--progress'', ''/home/u/p/'', ''/home/u/p'']"
    by (simp add: rsyncArgs_def)
  have l: "snd (main ?l) \<noteq> Exit 1 \<and> filter isExec (fst (main ?l)) =
       [Exec ''rsync'' [''-avz'', ''--progress'', ''/home/u/p/'', ''/home/u/p'']]"
    using endpoint_pair_validation [of ?l "''/home/u/p''" "''/home/u''" "''p''"
        "\<lparr>name = ''/home/u/p'', rsyncPath = ''/home/u/p'', isLocal = True, localPath = ''/home/u/p''\<rparr>"
        "\<lparr>name = ''/home/u/p'', rsyncPath = ''/home/u/p'', isLocal = True, localPath = ''/home/u/p''\<rparr>"
        "[]"]
    by (simp add: exampleEnv_fields sourceArgOf_def destArgOf_def rel_home localEndpoint
        load_missing args)
  from r l show ?thesis by blast
qed

subsection \<open>An ignore file that cannot be read\<close>

text \<open>
  Claim C4, as stated, fails: when opening the ignore file fails for another reason
  than the file not existing, main prints the error and exits with code 1, before any
  transfer.
\<close>

theorem unreadable_ignore_file_aborts:
  "main (exampleEnv [''bq''] True (Unreadable ''permission denied'')) =
     ([Print (''Error: Unable to load .ssyncignore file: permission denied'' @ newline)], Exit 1)"
  by code_simp

lemma loadIgnoreFile_cases:
  "osOpen (Join dir ''.ssyncignore'') = Unreadable err \<Longrightarrow> loadIgnoreFile osOpen dir = Inl err"
  "osOpen (Join dir ''.ssyncignore'') = Lines ls (Some err) \<Longrightarrow> loadIgnoreFile osOpen dir = Inl err"
  "osOpen (Join dir ''.ssyncignore'') = NoSuchFile err \<Longrightarrow> loadIgnoreFile osOpen dir = Inr []"
  by (simp_all add: loadIgnoreFile_def)

text \<open>
  Claim C4, amended. An error while reading the ignore file, other than the file not
  existing, is fatal: whether opening the file or scanning its lines fails, main
  prints the error and exits with code 1, and no transfer is invoked. Only a file
  that does not exist yields the empty exclusion list, with which the transfer is
  invoked.
\<close>

theorem ignore_file_error_is_fatal:
  assumes "length (envArgs e) = 1 \<or> length (envArgs e) = 2"
    and "envGetwd e = Inr cwd" and "envUserHomeDir e = Inr homeDir"
    and "Rel homeDir cwd = Inr relativePath"
    and "newEndpoint (envGetwd e) (sourceArgOf (envArgs e)) cwd relativePath = Inr s"
    and "newEndpoint (envGetwd e) (destArgOf (envArgs e)) cwd relativePath = Inr d"
    and "isLocal s \<or> isLocal d"
    and "ignoreBase = (if isLocal s then localPath s else localPath d)"
  shows "(envOpen e (Join ignoreBase ''.ssyncignore'') = Unreadable err
            \<or> envOpen e (Join ignoreBase ''.ssyncignore'') = Lines ls (Some err) \<longrightarrow>
          main e = ([Print (''Error: Unable to load .ssyncignore file: '' @ err @ newline)], Exit 1))
       \<and> (envOpen e (Join ignoreBase ''.ssyncignore'') = NoSuchFile err \<longrightarrow>
            snd (main e) \<noteq> Exit 1
            \<and> filter isExec (fst (main e)) =
                [Exec ''rsync'' (rsyncArgs (rsyncPath s) (rsyncPath d) [] True True True False)])"
proof (intro conjI impI)
  assume "envOpen e (Join ignoreBase ''.ssyncignore'') = Unreadable err
            \<or> envOpen e (Join ignoreBase ''.ssyncignore'') = Lines ls (Some err)"
  then have "loadIgnoreFile (envOpen e) ignoreBase = Inl err"
    using loadIgnoreFile_cases(1,2) by blast
  then show "main e = ([Print (''Error: Unable to load .ssyncignore file: '' @ err @ newline)], Exit 1)"
    using main_ignore_error [OF assms(1-7)] assms(8) by simp
next
  assume "envOpen e (Join ignoreBase ''.ssyncignore'') = NoSuchFile err"
  then have "loadIgnoreFile (envOpen e) ignoreBase = Inr []"
    by (rule loadIgnoreFile_cases(3))
  then have b: "loadIgnoreFile (envOpen e) (if isLocal s then localPath s else localPath d) = Inr []"
    using assms(8) by simp
  note m = main_synced [OF assms(1-7) b]
  show "snd (main e) \<noteq> Exit 1" by (simp add: m)
  show "filter isExec (fst (main e)) =
                [Exec ''rsync'' (rsyncArgs (rsyncPath s) (rsyncPath d) [] True True True False)]"
    by (simp add: m runRsync_def Let_def split: option.splits)
qed

theorem ignore_file_error_is_fatal_witness:
  "main (exampleEnv [''bq''] True (Unreadable ''permission denied'')) =
     ([Print (''Error: Unable to load .ssyncignore file: permission denied'' @ newline)], Exit 1)
   \<and> main (exampleEnv [''bq''] True (Lines [''bin''] (Some ''token too long''))) =
     ([Print (''Error: Unable to load .ssyncignore file: token too long'' @ newline)], Exit 1)
   \<and> snd (main (exampleEnv [''bq''] True (NoSuchFile ''no such file''))) \<noteq> Exit 1
   \<and> filter isExec (fst (main (exampleEnv [''bq''] True (NoSuchFile ''no such file'')))) =
       [Exec ''rsync'' [''-avz'', ''--progress'', ''/home/u/p/'', ''bq:~/p'']]"
proof -
  let ?s = "\<lparr>name = ''/home/u/p'', rsyncPath = ''/home/u/p'', isLocal = True, localPath = ''/home/u/p''\<rparr>"
  let ?d = "\<lparr>name = ''bq:~/p'', rsyncPath = ''bq:~/p'', isLocal = False, localPath = []\<rparr>"
  have args: "rsyncArgs ''/home/u/p'' ''bq:~/p'' [] True True True False =
      [''-avz'', ''--progress'', ''/home/u/p/'', ''bq:~/p'']"
    by (simp add: rsyncArgs_def)
  have a: "main (exampleEnv [''bq''] True (Unreadable ''permission denied'')) =
     ([Print (''Error: Unable to load .ssyncignore file: permission denied'' @ newline)], Exit 1)"
    using ignore_file_error_is_fatal [of "exampleEnv [''bq''] True (Unreadable ''permission denied'')"
        "''/home/u/p''" "''/home/u''" "''p''" ?s ?d "''/home/u/p''" "''permission denied''" "[]"]
    by (simp add: exampleEnv_fields sourceArgOf_def destArgOf_def rel_home localEndpoint
        remoteEndpoint_bq)
  have b: "main (exampleEnv [''bq''] True (Lines [''bin''] (Some ''token too long''))) =
     ([Print (''Error: Unable to load .ssyncignore file: token too long'' @ newline)], Exit 1)"
    using ignore_file_error_is_fatal [of "exampleEnv [''bq''] True (Lines [''bin''] (Some ''token too long''))"
        "''/home/u/p''" "''/home/u''" "''p''" ?s ?d "''/home/u/p''" "''token too long''" "[''bin'']"]
    by (simp add: exampleEnv_fields sourceArgOf_def destArgOf_def rel_home localEndpoint
        remoteEndpoint_bq)
  have c: "snd (main (exampleEnv [''bq''] True (NoSuchFile ''no such file''))) \<noteq> Exit 1
   \<and> filter isExec (fst (main (exampleEnv [''bq''] True (NoSuchFile ''no such file'')))) =
       [Exec ''rsync'' [''-avz'', ''--progress'', ''/home/u/p/'', ''bq:~/p'']]"
    using ignore_file_error_is_fatal [of "exampleEnv [''bq''] True (NoSuchFile ''no such file'')"
        "''/home/u/p''" "''/home/u''" "''p''" ?s ?d "''/home/u/p''" "''no such file''" "[]"]
    by (simp add: exampleEnv_fields sourceArgOf_def destArgOf_def rel_home localEndpoint
        remoteEndpoint_bq args)
  from a b c show ?thesis by blast
qed

subsection \<open>Watch mode with a remote source\<close>

text \<open>
  Claim C10. When watch mode is enabled and the source endpoint resolved as remote,
  main never starts the watcher. In pull mode, where the destination is local and
  the ignore file is loaded, main invokes the transfer exactly once, prints as its
  last output the notice that watch mode needs a local source, and returns normally.
\<close>

theorem pull_mode_never_watches:
  assumes "length (envArgs e) = 1 \<or> length (envArgs e) = 2"
    and "envGetwd e = Inr cwd" and "envUserHomeDir e = Inr homeDir"
    and "Rel homeDir cwd = Inr relativePath"
    and "newEndpoint (envGetwd e) (sourceArgOf (envArgs e)) cwd relativePath = Inr s"
    and "newEndpoint (envGetwd e) (destArgOf (envArgs e)) cwd relativePath = Inr d"
    and "envWatch e" and "\<not> isLocal s"
  shows "\<not> isStartWatcher (snd (main e))
       \<and> (isLocal d \<and> loadIgnoreFile (envOpen e) (localPath d) = Inr exclusions \<longrightarrow>
            snd (main e) = Return
            \<and> filter isExec (fst (main e)) =
                [Exec ''rsync'' (rsyncArgs (rsyncPath s) (rsyncPath d) exclusions True True True False)]
            \<and> last (fst (main e)) =
                Print (''Watch mode is only available when syncing from the local machine. Skipping watcher.''
                         @ newline))"
proof (intro conjI impI)
  show "\<not> isStartWatcher (snd (main e))"
  proof (cases "isLocal d")
    case False
    with assms(8) show ?thesis using main_both_remote [OF assms(1-6)] by simp
  next
    case True
    then have a: "isLocal s \<or> isLocal d" by simp
    show ?thesis
    proof (cases "loadIgnoreFile (envOpen e) (if isLocal s then localPath s else localPath d)")
      case (Inl err)
      then show ?thesis using main_ignore_error [OF assms(1-6) a] by simp
    next
      case (Inr ex)
      then show ?thesis using main_synced [OF assms(1-6) a] assms(8) by simp
    qed
  qed
next
  assume l: "isLocal d \<and> loadIgnoreFile (envOpen e) (localPath d) = Inr exclusions"
  then have a: "isLocal s \<or> isLocal d"
    and b: "loadIgnoreFile (envOpen e) (if isLocal s then localPath s else localPath d) = Inr exclusions"
    using assms(8) by simp_all
  note m = main_synced [OF assms(1-6) a b]
  show "snd (main e) = Return" using assms(8) by (simp add: m)
  show "filter isExec (fst (main e)) =
                [Exec ''rsync'' (rsyncArgs (rsyncPath s) (rsyncPath d) exclusions True True True False)]"
    by (simp add: m runRsync_def Let_def split: option.splits)
  show "last (fst (main e)) =
                Print (''Watch mode is only available when syncing from the local machine. Skipping watcher.''
                         @ newline)"
    using assms(7,8) by (simp add: m)
qed

theorem pull_mode_never_watches_witness:
  "\<not> isStartWatcher (snd (main (exampleEnv [''bq'', ''.''] True (NoSuchFile ''no such file''))))
   \<and> snd (main (exampleEnv [''bq'', ''.''] True (NoSuchFile ''no such file''))) = Return
   \<and> filter isExec (fst (main (exampleEnv [''bq'', ''.''] True (NoSuchFile ''no such file'')))) =
       [Exec ''rsync'' [''-avz'', ''--progress'', ''bq:~/p/'', ''/home/u/p'']]
   \<and> last (fst (main (exampleEnv [''bq'', ''.''] True (NoSuchFile ''no such file'')))) =
       Print (''Watch mode is only available when syncing from the local machine. Skipping watcher.''
                @ newline)"
proof -
  have args: "rsyncArgs ''bq:~/p'' ''/home/u/p'' [] True True True False =
      [''-avz'', ''--progress'', ''bq:~/p/'', ''/home/u/p'']"
    by (simp add: rsyncArgs_def)
  show ?thesis
    using pull_mode_never_watches [of "exampleEnv [''bq'', ''.''] True (NoSuchFile ''no such file'')"
        "''/home/u/p''" "''/home/u''" "''p''"
        "\<lparr>name = ''bq:~/p'', rsyncPath = ''bq:~/p'', isLocal = False, localPath = []\<rparr>"
        "\<lparr>name = ''/home/u/p'', rsyncPath = ''/home/u/p'', isLocal = True, localPath = ''/home/u/p''\<rparr>"
        "[]"]
    by (simp add: exampleEnv_fields sourceArgOf_def destArgOf_def rel_home localEndpoint
        remoteEndpoint_bq load_missing args)
qed

subsection \<open>The debounce timer\<close>

lemma excludedBy_no_exec: "filter isExec (fst (excludedBy relPath p)) = []"
  by (cases "Match p (Base relPath)") (auto simp: excludedBy_def)

lemma excludedLoop_no_exec: "filter isExec (fst (excludedLoop relPath ps)) = []"
proof (induction ps)
  case Nil
  show ?case by simp
next
  case (Cons p ps)
  obtain out r where by_p: "excludedBy relPath p = (out, r)" by (cases "excludedBy relPath p")
  obtain out' r' where l: "excludedLoop relPath ps = (out', r')" by (cases "excludedLoop relPath ps")
  from by_p excludedBy_no_exec [of relPath p] have "filter isExec out = []" by simp
  moreover from l Cons.IH have "filter isExec out' = []" by simp
  ultimately show ?case using by_p l by (cases r) simp_all
qed

lemma isExcluded_no_exec: "filter isExec (fst (isExcluded getwd path ps)) = []"
proof (cases getwd)
  case (Inl err)
  then show ?thesis by (simp add: isExcluded_def)
next
  case (Inr cwd)
  show ?thesis
  proof (cases "Rel cwd path")
    case (Inl err)
    with Inr show ?thesis by (simp add: isExcluded_def)
  next
    case rel: (Inr relPath)
    show ?thesis
      using excludedLoop_no_exec [of relPath ps]
      by (simp add: isExcluded_relPath [OF Inr rel])
  qed
qed

lemma advance_pending: "pending (advance cfg now w) = filter (\<lambda>t. \<not> fireAt t \<le> now) (pending w)"
  by (simp add: advance_def Let_def)

lemma fold_fireTimer_syncTimer: "syncTimer (fold (fireTimer cfg) ts w) = syncTimer w"
  by (induction ts arbitrary: w) (simp_all add: fireTimer_def)

lemma fold_fireTimer_nextTimer: "nextTimer (fold (fireTimer cfg) ts w) = nextTimer w"
  by (induction ts arbitrary: w) (simp_all add: fireTimer_def)

lemma fold_fireTimer_syncs: "syncs (fold (fireTimer cfg) ts w) = syncs w @ map fireAt ts"
  by (induction ts arbitrary: w) (simp_all add: fireTimer_def)

lemma fold_fireTimer_execs:
  "length (filter isExec (printed (fold (fireTimer cfg) ts w))) =
     length (filter isExec (printed w)) + length ts"
  by (induction ts arbitrary: w) (simp_all add: fireTimer_def runRsync_exec_count)

lemma advance_syncTimer: "syncTimer (advance cfg now w) = syncTimer w"
  by (simp add: advance_def Let_def fold_fireTimer_syncTimer)

lemma advance_syncs:
  "syncs (advance cfg now w) = syncs w @ map fireAt (filter (\<lambda>t. fireAt t \<le> now) (pending w))"
  by (simp add: advance_def Let_def fold_fireTimer_syncs)

lemma advance_execs:
  "length (filter isExec (printed (advance cfg now w))) =
     length (filter isExec (printed w)) + length (filter (\<lambda>t. fireAt t \<le> now) (pending w))"
  by (simp add: advance_def Let_def fold_fireTimer_execs)

lemma advance_clock: "clock (advance cfg now w) = max (clock w) now"
  by (simp add: advance_def Let_def)

lemma timerInv_advance: "timerInv w \<Longrightarrow> timerInv (advance cfg now w)"
  by (cases "pending w") (auto simp: timerInv_def advance_pending advance_syncTimer)

lemma timerInv_length: "timerInv w \<Longrightarrow> length (pending w) \<le> 1"
  by (simp add: timerInv_def)

lemma rearm:
  assumes "timerInv w"
  shows "(case afterFunc debounceDelay (case syncTimer w of None \<Rightarrow> w | Some h \<Rightarrow> timerStop h w) of
            (h, w3) \<Rightarrow> w3\<lparr>syncTimer := Some h\<rparr>) =
         w\<lparr>pending := [\<lparr>timerId = nextTimer w, fireAt = clock w + debounceDelay\<rparr>],
           nextTimer := Suc (nextTimer w), syncTimer := Some (nextTimer w)\<rparr>"
proof (cases "pending w")
  case Nil
  then show ?thesis
    by (cases "syncTimer w") (simp_all add: afterFunc_def timerStop_def)
next
  case (Cons t ts)
  with assms have ts: "ts = []" and st: "syncTimer w = Some (timerId t)"
    by (auto simp: timerInv_def)
  with Cons show ?thesis by (simp add: afterFunc_def timerStop_def)
qed

lemma timerInv_printed: "timerInv (w\<lparr>printed := p\<rparr>) = timerInv w"
  by (simp add: timerInv_def)

lemma handleInput_qualifying:
  assumes "qualifies cfg i" and "timerInv w"
  shows "pending (handleInput cfg i w) = [\<lparr>timerId = nextTimer w, fireAt = clock w + debounceDelay\<rparr>]"
    and "syncTimer (handleInput cfg i w) = Some (nextTimer w)"
    and "syncs (handleInput cfg i w) = syncs w"
    and "clock (handleInput cfg i w) = clock w"
    and "filter isExec (printed (handleInput cfg i w)) = filter isExec (printed w)"
proof -
  from assms(1) obtain ev where i: "i = EventIn ev"
    and watched: "isWatchedEvent ev (wChangeList cfg)"
    and notex: "\<not> snd (isExcluded (wGetwd cfg) (evName ev) (wExclusions cfg))"
    by (cases i) (auto simp: qualifies_def)
  obtain out where ex: "isExcluded (wGetwd cfg) (evName ev) (wExclusions cfg) = (out, False)"
    using notex by (cases "isExcluded (wGetwd cfg) (evName ev) (wExclusions cfg)") auto
  from isExcluded_no_exec [of "wGetwd cfg" "evName ev" "wExclusions cfg"] ex
  have noexec: "filter isExec out = []" by simp
  define line where "line = Print (''['' @ ToLower (opString (evOp ev)) @ ''] ''
      @ TrimPrefix (TrimPrefix (evName ev) (wSource cfg)) ''/'' @ newline)"
  define w1 where "w1 = w\<lparr>printed := printed w @ out @ [line]\<rparr>"
  have inv1: "timerInv w1" using assms(2) by (simp add: w1_def timerInv_printed)
  have "handleInput cfg i w =
      (case afterFunc debounceDelay (case syncTimer w1 of None \<Rightarrow> w1 | Some h \<Rightarrow> timerStop h w1) of
         (h, w3) \<Rightarrow> w3\<lparr>syncTimer := Some h\<rparr>)"
    unfolding handleInput_def i using watched ex
    by (cases "syncTimer w") (simp_all add: Let_def w1_def line_def)
  then have h: "handleInput cfg i w =
      w1\<lparr>pending := [\<lparr>timerId = nextTimer w1, fireAt = clock w1 + debounceDelay\<rparr>],
           nextTimer := Suc (nextTimer w1), syncTimer := Some (nextTimer w1)\<rparr>"
    by (simp only: rearm [OF inv1])
  show "pending (handleInput cfg i w) = [\<lparr>timerId = nextTimer w, fireAt = clock w + debounceDelay\<rparr>]"
    by (simp add: h w1_def)
  show "syncTimer (handleInput cfg i w) = Some (nextTimer w)" by (simp add: h w1_def)
  show "syncs (handleInput cfg i w) = syncs w" by (simp add: h w1_def)
  show "clock (handleInput cfg i w) = clock w" by (simp add: h w1_def)
  show "filter isExec (printed (handleInput cfg i w)) = filter isExec (printed w)"
    by (simp add: h w1_def noexec line_def)
qed

lemma handleInput_other:
  assumes "\<not> qualifies cfg i"
  shows "pending (handleInput cfg i w) = pending w"
    and "syncTimer (handleInput cfg i w) = syncTimer w"
proof -
  show "pending (handleInput cfg i w) = pending w"
    using assms by (cases i) (auto simp: handleInput_def qualifies_def split: prod.splits)
  show "syncTimer (handleInput cfg i w) = syncTimer w"
    using assms by (cases i) (auto simp: handleInput_def qualifies_def split: prod.splits)
qed

lemma timerInv_handleInput:
  assumes "timerInv w"
  shows "timerInv (handleInput cfg i w)"
proof (cases "qualifies cfg i")
  case True
  from handleInput_qualifying(1,2) [OF True assms] show ?thesis
    by (simp add: timerInv_def)
next
  case False
  from handleInput_other [OF False, of w] assms show ?thesis
    by (simp add: timerInv_def)
qed

lemma timerInv_watchRun: "timerInv w \<Longrightarrow> timerInv (watchRun cfg w ins)"
proof (induction ins arbitrary: w)
  case Nil
  then show ?case by simp
next
  case (Cons x ins)
  obtain at i where x: "x = (at, i)" by (cases x)
  from Cons.prems have "timerInv (handleInput cfg i (advance cfg at w))"
    by (intro timerInv_handleInput timerInv_advance)
  from Cons.IH [OF this] show ?case by (simp add: x)
qed

lemma timerInv_start: "timerInv watcherStart"
  by (simp add: timerInv_def watcherStart_def)

lemma burst_run:
  assumes "evs \<noteq> []" and "burst (map fst evs)" and "\<forall>i \<in> set (map snd evs). qualifies cfg i"
    and "timerInv w" and "\<forall>t \<in> set (pending w). fst (hd evs) < fireAt t"
    and "clock w \<le> fst (hd evs)"
  shows "syncs (watchRun cfg w evs) = syncs w
       \<and> filter isExec (printed (watchRun cfg w evs)) = filter isExec (printed w)
       \<and> map fireAt (pending (watchRun cfg w evs)) = [fst (last evs) + debounceDelay]"
  using assms
proof (induction evs arbitrary: w)
  case Nil
  then show ?case by simp
next
  case (Cons x evs)
  obtain at i where x: "x = (at, i)" by (cases x)
  define w' where "w' = advance cfg at w"
  define w'' where "w'' = handleInput cfg i w'"
  from Cons.prems(5) x have nodue: "filter (\<lambda>t. fireAt t \<le> at) (pending w) = []"
    by (auto simp: filter_empty_conv)
  have q: "qualifies cfg i" using Cons.prems(3) x by simp
  have inv': "timerInv w'" using Cons.prems(4) by (simp add: w'_def timerInv_advance)
  have clock': "clock w' = at" using Cons.prems(6) x by (simp add: w'_def advance_clock)
  have syncs': "syncs w' = syncs w" by (simp add: w'_def advance_syncs nodue)
  have execs': "filter isExec (printed w') = filter isExec (printed w)"
    by (simp add: w'_def advance_def Let_def nodue)
  have pend'': "pending w'' = [\<lparr>timerId = nextTimer w', fireAt = at + debounceDelay\<rparr>]"
    using handleInput_qualifying(1) [OF q inv'] clock' by (simp add: w''_def)
  have syncs'': "syncs w'' = syncs w"
    using handleInput_qualifying(3) [OF q inv'] syncs' by (simp add: w''_def)
  have execs'': "filter isExec (printed w'') = filter isExec (printed w)"
    using handleInput_qualifying(5) [OF q inv'] execs' by (simp add: w''_def)
  have clock'': "clock w'' = at"
    using handleInput_qualifying(4) [OF q inv'] clock' by (simp add: w''_def)
  have inv'': "timerInv w''" using inv' by (simp add: w''_def timerInv_handleInput)
  have run: "watchRun cfg w (x # evs) = watchRun cfg w'' evs" by (simp add: x w'_def w''_def)
  show ?case
  proof (cases evs)
    case Nil
    then show ?thesis using run pend'' syncs'' execs'' x by simp
  next
    case (Cons y rest)
    obtain at2 i2 where y: "y = (at2, i2)" by (cases y)
    from Cons.prems(2) x Cons y have le: "at \<le> at2" and lt: "at2 < at + debounceDelay"
      and b: "burst (map fst evs)" by simp_all
    have ne: "evs \<noteq> []" using Cons by simp
    have q': "\<forall>i \<in> set (map snd evs). qualifies cfg i" using Cons.prems(3) by simp
    have fut: "\<forall>t \<in> set (pending w''). fst (hd evs) < fireAt t"
      using pend'' lt Cons y by simp
    have clk: "clock w'' \<le> fst (hd evs)" using clock'' le Cons y by simp
    from Cons.IH [OF ne b q' inv'' fut clk] syncs'' execs'' run Cons
    show ?thesis by simp
  qed
qed

text \<open>
  Claim C2. Time is a logical clock and handling an input takes no time. For every
  non-empty sequence of qualifying change events in which each event arrives before
  the 2-second delay after its predecessor has elapsed, no synchronization runs
  during the burst, and letting time pass afterwards runs exactly one: at the instant
  the delay has elapsed after the last event, and not before. For every sequence of
  inputs whatsoever, at most one timer of the watcher is pending at any instant,
  because a pending timer is stopped before the next one is started.
\<close>

theorem debounce_one_sync_per_burst:
  assumes "evs \<noteq> []" and "burst (map fst evs)" and "\<forall>i \<in> set (map snd evs). qualifies cfg i"
  shows "syncs (watchRun cfg watcherStart evs) = []
       \<and> syncs (advance cfg now (watchRun cfg watcherStart evs)) =
           (if fst (last evs) + debounceDelay \<le> now then [fst (last evs) + debounceDelay] else [])
       \<and> length (filter isExec (printed (advance cfg now (watchRun cfg watcherStart evs)))) =
           (if fst (last evs) + debounceDelay \<le> now then 1 else 0)
       \<and> length (pending (watchRun cfg watcherStart ins)) \<le> 1
       \<and> length (pending (advance cfg now (watchRun cfg watcherStart ins))) \<le> 1"
proof -
  define w where "w = watchRun cfg watcherStart evs"
  have start: "\<forall>t \<in> set (pending watcherStart). fst (hd evs) < fireAt t"
    "clock watcherStart \<le> fst (hd evs)" "syncs watcherStart = []" "printed watcherStart = []"
    by (simp_all add: watcherStart_def)
  from burst_run [OF assms timerInv_start start(1,2)]
  have s: "syncs w = []" and x: "filter isExec (printed w) = []"
    and p: "map fireAt (pending w) = [fst (last evs) + debounceDelay]"
    by (simp_all add: w_def start)
  from p obtain t where t: "pending w = [t]" and ft: "fireAt t = fst (last evs) + debounceDelay"
    by (cases "pending w") auto
  have a: "syncs (advance cfg now w) =
           (if fst (last evs) + debounceDelay \<le> now then [fst (last evs) + debounceDelay] else [])"
    by (simp add: advance_syncs s t ft)
  have b: "length (filter isExec (printed (advance cfg now w))) =
           (if fst (last evs) + debounceDelay \<le> now then 1 else 0)"
    by (simp add: advance_execs x t ft)
  have inv: "timerInv (watchRun cfg watcherStart ins)"
    by (rule timerInv_watchRun [OF timerInv_start])
  have c: "length (pending (watchRun cfg watcherStart ins)) \<le> 1"
    by (rule timerInv_length [OF inv])
  have d: "length (pending (advance cfg now (watchRun cfg watcherStart ins))) \<le> 1"
    by (rule timerInv_length [OF timerInv_advance [OF inv]])
  from s a b c d show ?thesis unfolding w_def by blast
qed

lemma write_a_qualifies: "qualifies exampleWatch (writeOf ''/w/a.go'')"
  by code_simp

lemma write_b_qualifies: "qualifies exampleWatch (writeOf ''/w/b.go'')"
  by code_simp

theorem debounce_one_sync_per_burst_witness:
  "syncs (watchRun exampleWatch watcherStart
            [(0, writeOf ''/w/a.go''), (1000000000, writeOf ''/w/b.go'')]) = []
   \<and> syncs (advance exampleWatch 2999999999 (watchRun exampleWatch watcherStart
            [(0, writeOf ''/w/a.go''), (1000000000, writeOf ''/w/b.go'')])) = []
   \<and> syncs (advance exampleWatch 3000000000 (watchRun exampleWatch watcherStart
            [(0, writeOf ''/w/a.go''), (1000000000, writeOf ''/w/b.go'')])) = [3000000000]
   \<and> length (filter isExec (printed (advance exampleWatch 3000000000
        (watchRun exampleWatch watcherStart
            [(0, writeOf ''/w/a.go''), (1000000000, writeOf ''/w/b.go'')])))) = 1"
proof -
  let ?evs = "[(0::nat, writeOf ''/w/a.go''), (1000000000, writeOf ''/w/b.go'')]"
  have ne: "?evs \<noteq> []" by simp
  have b: "burst (map fst ?evs)" by (simp add: debounceDelay_def)
  have q: "\<forall>i \<in> set (map snd ?evs). qualifies exampleWatch i"
    by (simp add: write_a_qualifies write_b_qualifies)
  from debounce_one_sync_per_burst [OF ne b q, of 2999999999 "[]"]
    debounce_one_sync_per_burst [OF ne b q, of 3000000000 "[]"]
  show ?thesis by (simp add: debounceDelay_def)
qed

subsection \<open>Cleaned paths are joined elements\<close>

lemma joinElems_Cons: "joinElems (e # es) = (if es = [] then e else e @ Separator # joinElems es)"
  by (cases es) simp_all

lemma joinElems_snoc:
  "joinElems (es @ [e]) = (if es = [] then e else joinElems es @ Separator # e)"
  by (induction es rule: joinElems.induct) simp_all

lemma joinElems_empty: "\<forall>e \<in> set es. goodElem e \<Longrightarrow> (joinElems es = []) = (es = [])"
  by (cases es) (auto simp: joinElems_Cons goodElem_def)

lemma goodElem_ends: "goodElem e \<Longrightarrow> hd e \<noteq> Separator \<and> last e \<noteq> Separator"
  by (metis goodElem_def hd_in_set last_in_set)

lemma joinElems_hd:
  "\<forall>e \<in> set es. goodElem e \<Longrightarrow> es \<noteq> [] \<Longrightarrow> hd (joinElems es) \<noteq> Separator"
  using goodElem_ends by (cases es) (auto simp: joinElems_Cons goodElem_def hd_append)

lemma joinElems_last:
  "\<forall>e \<in> set es. goodElem e \<Longrightarrow> es \<noteq> [] \<Longrightarrow> last (joinElems es) \<noteq> Separator"
proof (induction es rule: joinElems.induct)
  case (2 e)
  then show ?case using goodElem_ends [of e] by simp
next
  case (3 e v va)
  then show ?case by (simp add: joinElems_empty)
qed simp

lemma joinElems_no_dot_slash:
  assumes "\<forall>e \<in> set es. goodElem e"
  shows "\<not> HasPrefix (joinElems es) ''./''"
proof (cases es)
  case Nil
  then show ?thesis by (simp add: HasPrefix_def)
next
  case (Cons e rest)
  with assms have g: "goodElem e" by simp
  show ?thesis
  proof
    assume h: "HasPrefix (joinElems es) ''./''"
    show False
    proof (cases e)
      case Nil
      with g show False by (simp add: goodElem_def)
    next
      case (Cons a e')
      show False
      proof (cases e')
        case Nil
        with h Cons \<open>es = e # rest\<close> g show False
          by (cases rest) (auto simp: HasPrefix_def goodElem_def)
      next
        case (Cons b e'')
        with h \<open>e = a # e'\<close> \<open>es = e # rest\<close> g show False
          by (cases rest) (auto simp: HasPrefix_def goodElem_def Separator_def)
      qed
    qed
  qed
qed

lemma backtrack_bounds:
  "backtrack out dotdot n \<le> n
   \<and> (backtrack out dotdot n \<le> dotdot \<or> out ! (backtrack out dotdot n) = Separator)
   \<and> (dotdot \<le> n \<longrightarrow> dotdot \<le> backtrack out dotdot n)"
  by (induction out dotdot n rule: backtrack.induct) auto

lemma cut_at_separator:
  assumes "\<forall>e \<in> set es. goodElem e" and "w < length (joinElems es)"
    and "joinElems es ! w = Separator"
  shows "\<exists>k. take w (joinElems es) = joinElems (take k es)"
  using assms
proof (induction es arbitrary: w)
  case Nil
  then show ?case by simp
next
  case (Cons e es)
  from Cons.prems(1) have g: "goodElem e" and gs: "\<forall>x \<in> set es. goodElem x" by simp_all
  show ?case
  proof (cases "es = []")
    case True
    with Cons.prems g show ?thesis
      by (auto simp: goodElem_def dest: nth_mem)
  next
    case False
    then have j: "joinElems (e # es) = e @ Separator # joinElems es" by (simp add: joinElems_Cons)
    consider "w < length e" | "w = length e" | "w > length e" by linarith
    then show ?thesis
    proof cases
      case 1
      with Cons.prems(3) j have "e ! w = Separator" by (simp add: nth_append)
      with 1 g show ?thesis by (auto simp: goodElem_def dest: nth_mem)
    next
      case 2
      have "take w (joinElems (e # es)) = joinElems (take 1 (e # es))"
        using 2 j by simp
      then show ?thesis by blast
    next
      case 3
      define w' where "w' = w - Suc (length e)"
      from 3 have w: "w = Suc (length e) + w'" by (simp add: w'_def)
      from Cons.prems(2) j w have lt: "w' < length (joinElems es)" by simp
      from Cons.prems(3) j w have sep: "joinElems es ! w' = Separator"
        by (simp add: nth_append)
      from Cons.IH [OF gs lt sep] obtain k where k: "take w' (joinElems es) = joinElems (take k es)"
        by blast
      have "take k es \<noteq> []"
      proof
        assume "take k es = []"
        with k have "take w' (joinElems es) = []" by simp
        with lt have "w' = 0" by auto
        with sep have "hd (joinElems es) = Separator" using lt by (simp add: hd_conv_nth)
        with joinElems_hd [OF gs False] show False by simp
      qed
      then have "joinElems (take (Suc k) (e # es)) = e @ Separator # joinElems (take k es)"
        by (simp add: joinElems_Cons)
      moreover have "take w (joinElems (e # es)) = e @ Separator # take w' (joinElems es)"
        using j w by simp
      ultimately have "take w (joinElems (e # es)) = joinElems (take (Suc k) (e # es))"
        using k by simp
      then show ?thesis by blast
    qed
  qed
qed

lemma render_cut:
  assumes "\<forall>e \<in> set es. goodElem e" and "w < length (render rooted es)"
    and "render rooted es ! w = Separator" and "rooted \<longrightarrow> 1 \<le> w"
  shows "\<exists>k. take w (render rooted es) = render rooted (take k es)"
proof (cases rooted)
  case False
  with assms cut_at_separator [of es w] show ?thesis by (simp add: render_def)
next
  case True
  with assms(4) obtain w' where w: "w = Suc w'" by (cases w) auto
  from assms(2,3) True w have "w' < length (joinElems es)" "joinElems es ! w' = Separator"
    by (simp_all add: render_def)
  from cut_at_separator [OF assms(1) this] obtain k where
    "take w' (joinElems es) = joinElems (take k es)" by blast
  with True w have "take w (render rooted es) = render rooted (take k es)"
    by (simp add: render_def)
  then show ?thesis by blast
qed

lemma joinElems_append_prefix: "\<exists>zs. joinElems (xs @ ys) = joinElems xs @ zs"
proof (induction xs)
  case Nil
  show ?case by simp
next
  case (Cons x xs)
  then obtain zs where zs: "joinElems (xs @ ys) = joinElems xs @ zs" by blast
  show ?case
  proof (cases "xs = []")
    case True
    then show ?thesis by (simp add: joinElems_Cons)
  next
    case False
    with zs show ?thesis by (simp add: joinElems_Cons)
  qed
qed

lemma render_take_prefix:
  assumes "k' \<le> k"
  shows "\<exists>zs. render rooted (take k es) = render rooted (take k' es) @ zs"
proof -
  define ys where "ys = drop k' (take k es)"
  have "take k' (take k es) = take k' es" using assms by (simp add: min_def)
  then have e: "take k' es @ ys = take k es"
    unfolding ys_def using append_take_drop_id [of k' "take k es"] by simp
  obtain zs where "joinElems (take k' es @ ys) = joinElems (take k' es) @ zs"
    using joinElems_append_prefix by blast
  then have "joinElems (take k es) = joinElems (take k' es) @ zs" by (simp only: e)
  then have "render rooted (take k es) = render rooted (take k' es) @ zs"
    by (simp add: render_def)
  then show ?thesis by blast
qed

lemma render_length_one:
  "\<forall>e \<in> set es. goodElem e \<Longrightarrow> (length (render True es) = 1) = (es = [])"
  using joinElems_empty [of es] by (auto simp: render_def)

lemma render_length_zero:
  "\<forall>e \<in> set es. goodElem e \<Longrightarrow> (length (render False es) = 0) = (es = [])"
  using joinElems_empty [of es] by (auto simp: render_def)

lemma render_snoc:
  assumes "\<forall>e \<in> set es. goodElem e"
  shows "render rooted (es @ [e]) =
     (if rooted \<and> length (render rooted es) \<noteq> 1 \<or> \<not> rooted \<and> length (render rooted es) \<noteq> 0
      then render rooted es @ [Separator] else render rooted es) @ e"
proof (cases rooted)
  case True
  with render_length_one [OF assms] show ?thesis
    by (auto simp: render_def joinElems_snoc)
next
  case False
  with render_length_zero [OF assms] show ?thesis
    by (auto simp: render_def joinElems_snoc)
qed

lemma cleanInvI:
  assumes "\<forall>e \<in> set es. goodElem e" and "out = render rooted es" and "dotdot \<le> length out"
    and "rooted \<longrightarrow> 1 \<le> dotdot" and "take dotdot out = render rooted (take k es)"
  shows "cleanInv rooted es out dotdot"
  unfolding cleanInv_def using assms by blast

lemma cleanInvD:
  assumes "cleanInv rooted es out dotdot"
  shows "\<forall>e \<in> set es. goodElem e" and "out = render rooted es" and "dotdot \<le> length out"
    and "rooted \<longrightarrow> 1 \<le> dotdot" and "\<exists>k. take dotdot out = render rooted (take k es)"
  using assms unfolding cleanInv_def by blast+

lemma cleanInv_append:
  assumes "cleanInv rooted es out dotdot" and "goodElem e"
  shows "cleanInv rooted (es @ [e])
           ((if rooted \<and> length out \<noteq> 1 \<or> \<not> rooted \<and> length out \<noteq> 0
             then out @ [Separator] else out) @ e) dotdot"
proof -
  note g = cleanInvD(1) [OF assms(1)] and out = cleanInvD(2) [OF assms(1)]
    and le = cleanInvD(3) [OF assms(1)] and r = cleanInvD(4) [OF assms(1)]
  from cleanInvD(5) [OF assms(1)] obtain k where k: "take dotdot out = render rooted (take k es)"
    by blast
  let ?out' = "(if rooted \<and> length out \<noteq> 1 \<or> \<not> rooted \<and> length out \<noteq> 0
             then out @ [Separator] else out) @ e"
  have o': "?out' = render rooted (es @ [e])"
    unfolding out by (rule render_snoc [OF g, symmetric])
  have "take dotdot ?out' = take dotdot out" using le by auto
  also have "\<dots> = render rooted (take (min k (length es)) (es @ [e]))"
    using k by (simp add: min_def)
  finally have kk: "take dotdot ?out' = render rooted (take (min k (length es)) (es @ [e]))" .
  have le': "dotdot \<le> length ?out'" using le by auto
  have g': "\<forall>x \<in> set (es @ [e]). goodElem x" using g assms(2) by simp
  show ?thesis by (rule cleanInvI [OF g' o' le' r kk])
qed

lemma goodElem_dotdot: "goodElem ''..''"
  by (simp add: goodElem_def Separator_def)

lemma cleanInv_dotdot:
  assumes "cleanInv False es out dotdot"
  shows "cleanInv False (es @ [''..''])
           ((if out \<noteq> [] then out @ [Separator] else out) @ ''..'')
           (length ((if out \<noteq> [] then out @ [Separator] else out) @ ''..''))"
proof -
  note g = cleanInvD(1) [OF assms] and out = cleanInvD(2) [OF assms]
  let ?out' = "(if out \<noteq> [] then out @ [Separator] else out) @ ''..''"
  have "render False (es @ [''..'']) =
      (if render False es \<noteq> [] then render False es @ [Separator] else render False es) @ ''..''"
    using render_snoc [OF g, of False "''..''"] by simp
  then have o': "?out' = render False (es @ [''..''])"
    unfolding out by (rule sym)
  have kk: "take (length ?out') ?out' = render False (take (Suc (length es)) (es @ [''..'']))"
    using o' by simp
  have g': "\<forall>x \<in> set (es @ [''..'']). goodElem x" using g goodElem_dotdot by simp
  show ?thesis by (rule cleanInvI [OF g' o' _ _ kk]) simp_all
qed

lemma cleanInv_backtrack:
  assumes "cleanInv rooted es out dotdot" and "dotdot < length out"
  shows "\<exists>es2. cleanInv rooted es2 (take (backtrack out dotdot (length out - 1)) out) dotdot"
proof -
  note g = cleanInvD(1) [OF assms(1)] and out = cleanInvD(2) [OF assms(1)]
    and r = cleanInvD(4) [OF assms(1)]
  from cleanInvD(5) [OF assms(1)] obtain k where k: "take dotdot out = render rooted (take k es)"
    by blast
  define w where "w = backtrack out dotdot (length out - 1)"
  from backtrack_bounds [of out dotdot "length out - 1"] assms(2)
  have wlt: "w < length out" and wcase: "w \<le> dotdot \<or> out ! w = Separator" and dw: "dotdot \<le> w"
    by (auto simp: w_def)
  have lenw: "length (take w out) = w" using wlt by simp
  have tdd: "take dotdot (take w out) = take dotdot out" using dw by (simp add: min_def)
  show ?thesis
  proof (cases "out ! w = Separator")
    case True
    from r dw have rw: "rooted \<longrightarrow> 1 \<le> w" by auto
    have "w < length (render rooted es)" "render rooted es ! w = Separator"
      using wlt True out by simp_all
    from render_cut [OF g this rw] out
    obtain k' where k': "take w out = render rooted (take k' es)" by auto
    have g2: "\<forall>x \<in> set (take k' es). goodElem x" using g by (auto dest: in_set_takeD)
    have "\<exists>j. take dotdot (take w out) = render rooted (take j (take k' es))"
    proof (cases "k \<le> k'")
      case True
      then have "take k es = take k (take k' es)" by (simp add: min_def)
      with tdd k have "take dotdot (take w out) = render rooted (take k (take k' es))" by simp
      then show ?thesis by blast
    next
      case False
      then have "k' \<le> k" by simp
      from render_take_prefix [OF this, of rooted es] obtain zs where
        zs: "render rooted (take k es) = render rooted (take k' es) @ zs" by blast
      have "length (take dotdot out) = dotdot" using assms(2) by simp
      then have "length (render rooted (take k es)) = dotdot" using k by simp
      moreover have "length (render rooted (take k' es)) = w" using k' lenw by simp
      ultimately have "zs = []" using zs dw by (cases zs) auto
      with zs k tdd have "take dotdot (take w out) = render rooted (take k' (take k' es))"
        by simp
      then show ?thesis by blast
    qed
    then obtain j where j: "take dotdot (take w out) = render rooted (take j (take k' es))"
      by blast
    have "dotdot \<le> length (take w out)" using lenw dw by simp
    from cleanInvI [OF g2 k' this r j] show ?thesis unfolding w_def by blast
  next
    case False
    with wcase dw have weq: "w = dotdot" by simp
    have g2: "\<forall>x \<in> set (take k es). goodElem x" using g by (auto dest: in_set_takeD)
    have j: "take dotdot (take w out) = render rooted (take k (take k es))"
      using tdd k by simp
    have o2: "take w out = render rooted (take k es)" using k weq by simp
    have "dotdot \<le> length (take w out)" using lenw dw by simp
    from cleanInvI [OF g2 o2 this r j] show ?thesis unfolding w_def by blast
  qed
qed

lemma cleanLoop_shape:
  "cleanInv rooted es out dotdot \<Longrightarrow>
     \<exists>es'. (\<forall>e \<in> set es'. goodElem e) \<and> cleanLoop rooted path out dotdot = render rooted es'"
proof (induction rooted path out dotdot arbitrary: es rule: cleanLoop.induct)
  case (1 rooted out dotdot)
  from cleanInvD(1,2) [OF "1.prems"] show ?case by auto
next
  case (2 rooted c cs out dotdot)
  note inv = "2.prems"
  show ?case
  proof (cases "c = Separator")
    case True
    then have c1: "(c = Separator) = True" by simp
    have eq: "cleanLoop rooted (c # cs) out dotdot = cleanLoop rooted cs out dotdot"
      by (simp only: cleanLoop.simps c1 if_True)
    from "2.IH"(1) [OF True inv] show ?thesis unfolding eq .
  next
    case notsep: False
    then have c1: "(c = Separator) = False" by simp
    show ?thesis
    proof (cases "c = CHR ''.'' \<and> (cs = [] \<or> hd cs = Separator)")
      case True
      then have c2: "(c = CHR ''.'' \<and> (cs = [] \<or> hd cs = Separator)) = True" by simp
      have eq: "cleanLoop rooted (c # cs) out dotdot = cleanLoop rooted cs out dotdot"
        by (simp only: cleanLoop.simps c1 c2 if_True if_False)
      from "2.IH"(2) [OF notsep True inv] show ?thesis unfolding eq .
    next
      case notdot: False
      then have c2: "(c = CHR ''.'' \<and> (cs = [] \<or> hd cs = Separator)) = False" by simp
      show ?thesis
      proof (cases "c = CHR ''.'' \<and> hd cs = CHR ''.'' \<and> (tl cs = [] \<or> hd (tl cs) = Separator)")
        case dd: True
        then have c3: "(c = CHR ''.'' \<and> hd cs = CHR ''.'' \<and> (tl cs = [] \<or> hd (tl cs) = Separator))
            = True" by simp
        show ?thesis
        proof (cases "dotdot < length out")
          case True
          then have c4: "(dotdot < length out) = True" by simp
          have eq: "cleanLoop rooted (c # cs) out dotdot =
              cleanLoop rooted (tl cs) (take (backtrack out dotdot (length out - 1)) out) dotdot"
            by (simp only: cleanLoop.simps c1 c2 c3 c4 if_True if_False)
          from cleanInv_backtrack [OF inv True] obtain es2 where
            "cleanInv rooted es2 (take (backtrack out dotdot (length out - 1)) out) dotdot"
            by blast
          from "2.IH"(3) [OF notsep notdot dd True this] show ?thesis unfolding eq .
        next
          case False
          then have c4: "(dotdot < length out) = False" by simp
          show ?thesis
          proof (cases rooted)
            case True
            then have r: "\<not> \<not> rooted" and c5: "(\<not> rooted) = False" by simp_all
            have eq: "cleanLoop rooted (c # cs) out dotdot = cleanLoop rooted (tl cs) out dotdot"
              by (simp only: cleanLoop.simps c1 c2 c3 c4 c5 if_True if_False)
            from "2.IH"(5) [OF notsep notdot dd False r inv] show ?thesis unfolding eq .
          next
            case nr: False
            then have c5: "(\<not> rooted) = True" by simp
            define x where "x = (if out \<noteq> [] then out @ [Separator] else out) @ ''..''"
            have eq: "cleanLoop rooted (c # cs) out dotdot = cleanLoop rooted (tl cs) x (length x)"
              unfolding x_def by (simp only: cleanLoop.simps c1 c2 c3 c4 c5 if_True if_False Let_def)
            have "cleanInv rooted (es @ [''..'']) x (length x)"
              using cleanInv_dotdot [of es out dotdot] inv nr by (simp add: x_def)
            from "2.IH"(4) [OF notsep notdot dd False nr x_def this] show ?thesis unfolding eq .
          qed
        qed
      next
        case real: False
        then have c3: "(c = CHR ''.'' \<and> hd cs = CHR ''.'' \<and> (tl cs = [] \<or> hd (tl cs) = Separator))
            = False" by simp
        define x where "x = (if rooted \<and> length out \<noteq> 1 \<or> \<not> rooted \<and> length out \<noteq> 0
           then out @ [Separator] else out)"
        define elem where "elem = c # takeWhile (\<lambda>x. x \<noteq> Separator) cs"
        have eq: "cleanLoop rooted (c # cs) out dotdot =
            cleanLoop rooted (dropWhile (\<lambda>x. x \<noteq> Separator) cs) (x @ elem) dotdot"
          unfolding x_def elem_def by (simp only: cleanLoop.simps c1 c2 c3 if_False Let_def)
        have "Separator \<notin> set (takeWhile (\<lambda>x. x \<noteq> Separator) cs)"
          by (auto dest: set_takeWhileD)
        moreover have "elem \<noteq> ''.''"
        proof
          assume "elem = ''.''"
          then have "c = CHR ''.''" and "takeWhile (\<lambda>x. x \<noteq> Separator) cs = []"
            by (simp_all add: elem_def)
          then have "c = CHR ''.'' \<and> (cs = [] \<or> hd cs = Separator)"
            by (cases cs) (auto split: if_splits)
          with notdot show False by simp
        qed
        ultimately have ge: "goodElem elem" using notsep by (simp add: goodElem_def elem_def)
        have "cleanInv rooted (es @ [elem]) (x @ elem) dotdot"
          using cleanInv_append [OF inv ge] by (simp add: x_def)
        from "2.IH"(6) [OF notsep notdot real x_def this [unfolded elem_def]]
        show ?thesis unfolding eq elem_def .
      qed
    qed
  qed
qed

lemma cleanInv_start: "cleanInv True [] [Separator] 1" "cleanInv False [] [] 0"
  by (simp_all add: cleanInv_def render_def)

lemma Clean_shape:
  "\<exists>es. (\<forall>e \<in> set es. goodElem e)
      \<and> Clean path = (if path \<noteq> [] \<and> hd path = Separator then render True es
                      else if es = [] then ''.'' else render False es)"
proof (cases "path = []")
  case True
  then have "Clean path = ''.''" by (simp add: Clean_def)
  with True show ?thesis by auto
next
  case ne: False
  show ?thesis
  proof (cases "hd path = Separator")
    case True
    from cleanLoop_shape [OF cleanInv_start(1), of "tl path"] obtain es where
      g: "\<forall>e \<in> set es. goodElem e" and c: "cleanLoop True (tl path) [Separator] 1 = render True es"
      by blast
    have "render True es \<noteq> []" by (simp add: render_def)
    with ne True c have "Clean path = render True es" by (simp add: Clean_def Let_def)
    with g ne True show ?thesis by auto
  next
    case False
    from cleanLoop_shape [OF cleanInv_start(2), of path] obtain es where
      g: "\<forall>e \<in> set es. goodElem e" and c: "cleanLoop False path [] 0 = render False es"
      by blast
    have "(render False es = []) = (es = [])" using joinElems_empty [OF g] by (simp add: render_def)
    with ne False c have "Clean path = (if es = [] then ''.'' else render False es)"
      by (simp add: Clean_def Let_def)
    with g ne False show ?thesis by auto
  qed
qed

lemma takeWhile_joinElems:
  assumes "Separator \<notin> set b"
  shows "takeWhile (\<lambda>c. c \<noteq> Separator) (joinElems (b # bs)) = b"
proof -
  from assms have all: "\<And>x. x \<in> set b \<Longrightarrow> x \<noteq> Separator" by auto
  have a: "takeWhile (\<lambda>c. c \<noteq> Separator) b = b"
    using all by (simp add: takeWhile_eq_all_conv)
  have "takeWhile (\<lambda>c. c \<noteq> Separator) (b @ Separator # zs) = b" for zs
    using takeWhile_append2 [of b "\<lambda>c. c \<noteq> Separator" "Separator # zs"] all by simp
  with a show ?thesis by (cases bs) simp_all
qed

lemma drop_joinElems: "drop (Suc (length b)) (joinElems (b # bs)) = joinElems bs"
  by (cases bs) simp_all

lemma relLoop_empty: "relLoop [] targ = ([], [], targ)" "relLoop base [] = ([], base, [])"
  by (subst relLoop.simps, simp)+

lemma relLoop_step:
  assumes "base \<noteq> []" and "targ \<noteq> []"
  shows "relLoop base targ =
     (if takeWhile (\<lambda>c. c \<noteq> Separator) targ \<noteq> takeWhile (\<lambda>c. c \<noteq> Separator) base
      then (takeWhile (\<lambda>c. c \<noteq> Separator) base, base, targ)
      else relLoop (drop (Suc (length (takeWhile (\<lambda>c. c \<noteq> Separator) base))) base)
             (drop (Suc (length (takeWhile (\<lambda>c. c \<noteq> Separator) targ))) targ))"
proof -
  from assms have c: "(base = [] \<or> targ = []) = False" by simp
  show ?thesis by (subst relLoop.simps) (simp only: c if_False Let_def)
qed

lemma relLoop_joined:
  assumes "\<forall>e \<in> set bs. e \<noteq> [] \<and> Separator \<notin> set e"
    and "\<forall>e \<in> set ts. e \<noteq> [] \<and> Separator \<notin> set e"
  shows "\<exists>k elem rest. relLoop (joinElems bs) (joinElems ts) = (elem, rest, joinElems (drop k ts))"
  using assms
proof (induction bs arbitrary: ts)
  case Nil
  have "relLoop (joinElems []) (joinElems ts) = ([], [], joinElems (drop 0 ts))"
    by (simp add: relLoop_empty del: relLoop.simps)
  then show ?case by blast
next
  case (Cons b bs)
  show ?case
  proof (cases ts)
    case Nil
    have "relLoop (joinElems (b # bs)) (joinElems []) = ([], joinElems (b # bs), joinElems (drop 0 []))"
      by (simp add: relLoop_empty del: relLoop.simps)
    with Nil show ?thesis by blast
  next
    case (Cons t ts')
    from Cons.prems(1) have b: "b \<noteq> []" "Separator \<notin> set b" by simp_all
    from Cons.prems(2) Cons have t: "t \<noteq> []" "Separator \<notin> set t" by simp_all
    have ne: "joinElems (b # bs) \<noteq> []" "joinElems (t # ts') \<noteq> []"
      using b t by (simp_all add: joinElems_Cons)
    note step = relLoop_step [OF ne, unfolded takeWhile_joinElems [OF b(2)]
        takeWhile_joinElems [OF t(2)] drop_joinElems]
    show ?thesis
    proof (cases "t = b")
      case False
      with step have "relLoop (joinElems (b # bs)) (joinElems (t # ts')) =
          (b, joinElems (b # bs), joinElems (drop 0 (t # ts')))"
        by (simp del: relLoop.simps)
      with Cons show ?thesis by blast
    next
      case True
      with step have r: "relLoop (joinElems (b # bs)) (joinElems (t # ts')) =
          relLoop (joinElems bs) (joinElems ts')"
        by (simp del: relLoop.simps)
      from Cons.prems(1) have pb: "\<forall>e \<in> set bs. e \<noteq> [] \<and> Separator \<notin> set e" by simp
      from Cons.prems(2) Cons have pt: "\<forall>e \<in> set ts'. e \<noteq> [] \<and> Separator \<notin> set e" by simp
      from Cons.IH [OF pb pt] obtain k elem rest where
        "relLoop (joinElems bs) (joinElems ts') = (elem, rest, joinElems (drop k ts'))" by blast
      with r have "relLoop (joinElems (b # bs)) (joinElems (t # ts')) =
          (elem, rest, joinElems (drop (Suc k) (t # ts')))" by (simp del: relLoop.simps)
      with Cons show ?thesis by blast
    qed
  qed
qed

lemma relLoop_rooted: "relLoop (Separator # xs) (Separator # ys) = relLoop xs ys"
  using relLoop_step [of "Separator # xs" "Separator # ys"] by (simp del: relLoop.simps)

lemma relLoop_render:
  assumes "\<forall>e \<in> set bs. e \<noteq> [] \<and> Separator \<notin> set e"
    and "\<forall>e \<in> set ts. e \<noteq> [] \<and> Separator \<notin> set e"
  shows "\<exists>k elem rest. relLoop (render r bs) (render r ts) = (elem, rest, joinElems (drop k ts))"
  using relLoop_joined [OF assms] by (cases r) (simp_all add: render_def relLoop_rooted del: relLoop.simps)

lemma HasPrefix_sep: "HasPrefix r ''/'' = (r \<noteq> [] \<and> hd r = Separator)"
  by (cases r) (auto simp: HasPrefix_def Separator_def)

lemma joinElems_not_dot:
  assumes "\<forall>e \<in> set es. goodElem e"
  shows "joinElems es \<noteq> ''.''"
proof (cases es)
  case Nil
  then show ?thesis by simp
next
  case (Cons e rest)
  with assms have "goodElem e" by simp
  then have "e \<noteq> []" "e \<noteq> ''.''" by (simp_all add: goodElem_def)
  with Cons show ?thesis
    by (cases rest; cases e) (auto simp: Cons_eq_append_conv)
qed

lemma last_dotdots: "last (''..'' @ concat (replicate n ''/..'')) = CHR ''.''"
  by (induction n) simp_all

text \<open>The last part of a cleaned target is free of the prefixes formatRemotePath trims.\<close>

lemma tail_facts:
  assumes "(\<forall>e \<in> set ts. goodElem e) \<or> ts = [''.'']"
  shows "\<not> HasPrefix (joinElems (drop k ts)) ''/''"
    and "\<not> HasPrefix (joinElems (drop k ts)) ''./''"
    and "joinElems (drop k ts) \<noteq> [] \<longrightarrow> last (joinElems (drop k ts)) \<noteq> Separator"
proof -
  let ?D = "drop k ts"
  from assms consider (good) "\<forall>e \<in> set ?D. goodElem e" | (dot) "?D = [''.'']" | (none) "?D = []"
    by (cases k) (auto dest: in_set_dropD)
  then have "\<not> HasPrefix (joinElems ?D) ''/'' \<and> \<not> HasPrefix (joinElems ?D) ''./''
      \<and> (joinElems ?D \<noteq> [] \<longrightarrow> last (joinElems ?D) \<noteq> Separator)"
  proof cases
    case good
    show ?thesis
    proof (cases "?D = []")
      case True
      then show ?thesis by (simp add: HasPrefix_def)
    next
      case False
      from joinElems_hd [OF good False] joinElems_last [OF good False]
        joinElems_no_dot_slash [OF good]
      show ?thesis by (simp add: HasPrefix_sep)
    qed
  next
    case dot
    then show ?thesis by (simp add: HasPrefix_def Separator_def)
  next
    case none
    then show ?thesis by (simp add: HasPrefix_def)
  qed
  then show "\<not> HasPrefix (joinElems (drop k ts)) ''/''"
    and "\<not> HasPrefix (joinElems (drop k ts)) ''./''"
    and "joinElems (drop k ts) \<noteq> [] \<longrightarrow> last (joinElems (drop k ts)) \<noteq> Separator"
    by blast+
qed

lemma Rel_output:
  assumes "Rel basepath targpath = Inr r"
  shows "\<not> HasPrefix r ''/'' \<and> \<not> HasPrefix r ''./'' \<and> (r \<noteq> [] \<longrightarrow> last r \<noteq> Separator)"
proof -
  define rb where "rb = (basepath \<noteq> [] \<and> hd basepath = Separator)"
  define rt where "rt = (targpath \<noteq> [] \<and> hd targpath = Separator)"
  from Clean_shape [of basepath] obtain bs where gb: "\<forall>e \<in> set bs. goodElem e"
    and cb: "Clean basepath = (if rb then render True bs else if bs = [] then ''.'' else render False bs)"
    unfolding rb_def by blast
  from Clean_shape [of targpath] obtain ts where gt: "\<forall>e \<in> set ts. goodElem e"
    and ct: "Clean targpath = (if rt then render True ts else if ts = [] then ''.'' else render False ts)"
    unfolding rt_def by blast
  define base where "base = (if Clean basepath = ''.'' then [] else Clean basepath)"
  define targ where "targ = Clean targpath"
  define ts' where "ts' = (if \<not> rt \<and> ts = [] then [''.''] else ts)"
  have base: "base = render rb bs"
  proof (cases rb)
    case True
    with cb have "Clean basepath = Separator # joinElems bs" by (simp add: render_def)
    then show ?thesis using True by (simp add: base_def render_def Separator_def)
  next
    case False
    show ?thesis
    proof (cases "bs = []")
      case True
      with False cb show ?thesis by (simp add: base_def render_def)
    next
      case ne: False
      with False cb have "Clean basepath = joinElems bs" by (simp add: render_def)
      with joinElems_not_dot [OF gb] False show ?thesis by (simp add: base_def render_def)
    qed
  qed
  have targ: "targ = render rt ts'"
    using ct by (auto simp: targ_def ts'_def render_def)
  have shape: "(\<forall>e \<in> set ts'. goodElem e) \<or> ts' = [''.'']"
    using gt by (auto simp: ts'_def)
  have pb: "\<forall>e \<in> set bs. e \<noteq> [] \<and> Separator \<notin> set e"
    using gb by (auto simp: goodElem_def)
  have pt: "\<forall>e \<in> set ts'. e \<noteq> [] \<and> Separator \<notin> set e"
    using shape by (auto simp: goodElem_def Separator_def)
  have bslash: "(base \<noteq> [] \<and> hd base = Separator) = rb"
  proof (cases rb)
    case True
    then show ?thesis by (simp add: base render_def)
  next
    case False
    then show ?thesis
      using joinElems_hd [OF gb] joinElems_empty [OF gb] by (auto simp: base render_def)
  qed
  have tslash: "(targ \<noteq> [] \<and> hd targ = Separator) = rt"
  proof (cases rt)
    case True
    then show ?thesis by (simp add: targ render_def)
  next
    case False
    show ?thesis
    proof (cases "ts = []")
      case True
      with False show ?thesis by (simp add: targ ts'_def render_def Separator_def)
    next
      case ne: False
      with False have "targ = joinElems ts" by (simp add: targ ts'_def render_def)
      with False joinElems_hd [OF gt ne] show ?thesis by simp
    qed
  qed
  show ?thesis
  proof (cases "targ = Clean basepath")
    case True
    with assms have "r = ''.''" by (simp add: Rel_def Let_def targ_def)
    then show ?thesis by (simp add: HasPrefix_def Separator_def)
  next
    case diff: False
    have same: "rb = rt"
    proof (rule ccontr)
      assume "rb \<noteq> rt"
      with bslash tslash have "(base \<noteq> [] \<and> hd base = Separator) \<noteq> (targ \<noteq> [] \<and> hd targ = Separator)"
        by simp
      with assms diff show False
        unfolding Rel_def Let_def targ_def [symmetric] base_def [symmetric] by simp
    qed
    from relLoop_render [OF pb pt, of rt] obtain k elem rest where
      loop: "relLoop base targ = (elem, rest, joinElems (drop k ts'))"
      using base targ same by auto
    define T where "T = joinElems (drop k ts')"
    note tf = tail_facts [OF shape, of k, folded T_def]
    from bslash tslash same have
      eqs: "(base \<noteq> [] \<and> hd base = Separator) = (targ \<noteq> [] \<and> hd targ = Separator)" by simp
    from assms diff eqs loop have r: "r = (if rest \<noteq> []
        then ''..'' @ concat (replicate (count_list rest Separator) ''/..'')
               @ (if T \<noteq> [] then Separator # T else [])
        else T)"
      unfolding Rel_def Let_def targ_def [symmetric] base_def [symmetric] T_def
      by (simp split: if_splits del: relLoop.simps)
    show ?thesis
    proof (cases "rest \<noteq> []")
      case False
      with r tf show ?thesis by simp
    next
      case True
      show ?thesis
      proof (cases "T = []")
        case True
        with r \<open>rest \<noteq> []\<close> last_dotdots [of "count_list rest Separator"] show ?thesis
          by (simp add: HasPrefix_def Separator_def)
      next
        case False
        with r \<open>rest \<noteq> []\<close> tf show ?thesis
          by (simp add: HasPrefix_def)
      qed
    qed
  qed
qed

lemma formatRemotePath_plain:
  assumes "\<not> HasPrefix relativePath ''./''" and "\<not> HasPrefix relativePath ''/''"
  shows "formatRemotePath host relativePath =
           (if relativePath = ''.'' \<or> relativePath = [] then host @ '':~/''
            else host @ '':~/'' @ relativePath)"
proof (cases "relativePath = []")
  case True
  then show ?thesis by (simp add: formatRemotePath_def TrimPrefix_def HasPrefix_def)
next
  case False
  with assms show ?thesis by (simp add: formatRemotePath_def TrimPrefix_def Let_def)
qed

subsection \<open>The address of a remote endpoint\<close>

text \<open>
  Claim C5. Let the relative path be the one \<open>filepath.Rel\<close> computes from the
  home directory to the working directory. For every host, formatRemotePath gives
  \<open>host:~/\<close> followed by the relative path, and that address does not end with a
  separator; except that for the relative path \<open>.\<close> (the working directory is the
  home directory) and for the empty one it gives exactly \<open>host:~/\<close>. This address
  is the name and the transfer address of the endpoint that newEndpoint makes for an
  argument that does not denote the local machine.
\<close>

theorem remote_address_convention:
  assumes "Rel homeDir cwd = Inr relativePath"
  shows "formatRemotePath host relativePath =
           (if relativePath = ''.'' then host @ '':~/'' else host @ '':~/'' @ relativePath)
       \<and> (relativePath \<noteq> ''.'' \<and> relativePath \<noteq> [] \<longrightarrow>
            last (formatRemotePath host relativePath) \<noteq> CHR ''/'')
       \<and> formatRemotePath host [] = host @ '':~/''
       \<and> (\<not> (host = [] \<or> host = ''.'' \<or> HasPrefix host ''./'' \<or> HasPrefix host ''../'' \<or> IsAbs host) \<longrightarrow>
            newEndpoint getwd host cwd relativePath =
              Inr \<lparr>name = formatRemotePath host relativePath,
                   rsyncPath = formatRemotePath host relativePath,
                   isLocal = False, localPath = []\<rparr>)"
proof -
  from Rel_output [OF assms] have p: "\<not> HasPrefix relativePath ''./''" "\<not> HasPrefix relativePath ''/''"
    and l: "relativePath \<noteq> [] \<longrightarrow> last relativePath \<noteq> Separator" by simp_all
  note f = formatRemotePath_plain [OF p, of host]
  have a: "formatRemotePath host relativePath =
           (if relativePath = ''.'' then host @ '':~/'' else host @ '':~/'' @ relativePath)"
    using f by simp
  have b: "relativePath \<noteq> ''.'' \<and> relativePath \<noteq> [] \<longrightarrow>
            last (formatRemotePath host relativePath) \<noteq> CHR ''/''"
    using f l by (simp add: Separator_def)
  have c: "formatRemotePath host [] = host @ '':~/''"
    by (simp add: formatRemotePath_def TrimPrefix_def HasPrefix_def)
  have d: "\<not> (host = [] \<or> host = ''.'' \<or> HasPrefix host ''./'' \<or> HasPrefix host ''../'' \<or> IsAbs host) \<longrightarrow>
            newEndpoint getwd host cwd relativePath =
              Inr \<lparr>name = formatRemotePath host relativePath,
                   rsyncPath = formatRemotePath host relativePath,
                   isLocal = False, localPath = []\<rparr>"
    by (simp add: newEndpoint_def Let_def)
  from a b c d show ?thesis by blast
qed

lemma rel_go_src: "Rel ''/home/u'' ''/home/u/go/src'' = Inr ''go/src''"
  by code_simp

lemma rel_at_home: "Rel ''/home/u'' ''/home/u'' = Inr ''.''"
  by code_simp

lemma bq_is_remote:
  "\<not> (''bq'' = [] \<or> ''bq'' = ''.'' \<or> HasPrefix ''bq'' ''./'' \<or> HasPrefix ''bq'' ''../'' \<or> IsAbs ''bq'')"
  by code_simp

theorem remote_address_convention_witness:
  "formatRemotePath ''bq'' ''go/src'' = ''bq:~/go/src''
   \<and> last (formatRemotePath ''bq'' ''go/src'') \<noteq> CHR ''/''
   \<and> formatRemotePath ''bq'' ''.'' = ''bq:~/''
   \<and> newEndpoint (Inr ''/home/u/go/src'') ''bq'' ''/home/u/go/src'' ''go/src'' =
       Inr \<lparr>name = ''bq:~/go/src'', rsyncPath = ''bq:~/go/src'', isLocal = False, localPath = []\<rparr>"
proof -
  from remote_address_convention [OF rel_go_src, of "''bq''" "Inr ''/home/u/go/src''"] bq_is_remote
  have a: "formatRemotePath ''bq'' ''go/src'' = ''bq:~/go/src''"
    and b: "last (formatRemotePath ''bq'' ''go/src'') \<noteq> CHR ''/''"
    and d: "newEndpoint (Inr ''/home/u/go/src'') ''bq'' ''/home/u/go/src'' ''go/src'' =
       Inr \<lparr>name = formatRemotePath ''bq'' ''go/src'', rsyncPath = formatRemotePath ''bq'' ''go/src'',
            isLocal = False, localPath = []\<rparr>"
    by simp_all
  from remote_address_convention [OF rel_at_home, of "''bq''"]
  have c: "formatRemotePath ''bq'' ''.'' = ''bq:~/''" by simp
  from a b c d show ?thesis by simp
qed

end
